theory Spec2Isabelle
  imports Main
begin

section \<open>Callbacks and fan-out\<close>

text \<open>
  Both services of \<^verbatim>\<open>App.test.tsx\<close> keep their subscribers in a JavaScript \<^verbatim>\<open>Set\<close> of
  function objects and fan an event out with \<^verbatim>\<open>set.forEach(callback => callback(data))\<close>.

  A callback is a function object compared by reference, so it is modelled by its reference
  \<open>cb\<close>. What a callback does with the data is outside the services; the one thing a service
  can observe is whether the call returns or throws. That is the parameter \<open>thr\<close> of the
  fan-out: \<open>thr c d\<close> holds when callback \<open>c\<close> throws on the argument \<open>d\<close>. Callbacks are
  taken not to call back into the service that invokes them.

  A \<^verbatim>\<open>Set\<close> iterates in insertion order and holds a reference at most once: it is a list
  without duplicates, \<open>set_add\<close> and \<open>set_delete\<close> being \<^verbatim>\<open>Set.prototype.add\<close> and
  \<^verbatim>\<open>Set.prototype.delete\<close>.
\<close>

type_synonym cb = nat

datatype 'a outcome = Returned 'a | Threw cb

definition set_add :: "cb \<Rightarrow> cb list \<Rightarrow> cb list" where
  "set_add c cs = (if c \<in> set cs then cs else cs @ [c])"

definition set_delete :: "cb \<Rightarrow> cb list \<Rightarrow> cb list" where
  "set_delete c cs = filter (\<lambda>x. x \<noteq> c) cs"

text \<open>
  \<^verbatim>\<open>callbacks.forEach(callback => callback(data))\<close>: the callbacks are called in order; there
  is no \<^verbatim>\<open>try\<close> around the call, so the first one that throws ends the loop and its exception
  leaves \<^verbatim>\<open>forEach\<close>. The result lists the calls made (the throwing call included) and says
  how the loop ended.
\<close>

fun forEach_call :: "(cb \<Rightarrow> 'd \<Rightarrow> bool) \<Rightarrow> cb list \<Rightarrow> 'd \<Rightarrow> (cb \<times> 'd) list \<times> unit outcome" where
  "forEach_call thr [] d = ([], Returned ())"
| "forEach_call thr (c # cs) d =
     (if thr c d then ([(c, d)], Threw c)
      else (case forEach_call thr cs d of (calls, r) \<Rightarrow> ((c, d) # calls, r)))"

section \<open>The transport: browser WebSocket objects\<close>

text \<open>
  \<^verbatim>\<open>WebSocket\<close> is the browser's class, not code of the repository. A socket is modelled by
  what the service reads and writes: the URL it was constructed with, its \<^verbatim>\<open>readyState\<close>, and
  the texts handed to \<^verbatim>\<open>send\<close> while it was open. Every socket ever constructed stays in the
  list \<open>sockets\<close> of the service state and is named by its index, since a socket the service
  no longer references still delivers its events to the handlers installed on it.
\<close>

datatype ready_state = CONNECTING | OPEN | CLOSING | CLOSED

record socket =
  url :: string
  readyState :: ready_state
  sent :: "string list"

text \<open>The exceptions that can leave \<^verbatim>\<open>RealtimeService.send\<close>: the one that
  \<^verbatim>\<open>WebSocket.prototype.send\<close> throws on a socket that is still connecting, and the one that
  \<^verbatim>\<open>JSON.stringify\<close> throws on a value it cannot serialise.\<close>

datatype js_error = InvalidStateError | TypeError

text \<open>\<^verbatim>\<open>WebSocket.prototype.send\<close>: throws while connecting, transmits when open, and discards
  the data once the socket is closing or closed.\<close>

definition ws_send :: "socket \<Rightarrow> string \<Rightarrow> js_error + socket" where
  "ws_send k txt =
     (case readyState k of
        CONNECTING \<Rightarrow> Inl InvalidStateError
      | OPEN \<Rightarrow> Inr (k\<lparr>sent := sent k @ [txt]\<rparr>)
      | CLOSING \<Rightarrow> Inr k
      | CLOSED \<Rightarrow> Inr k)"

text \<open>\<^verbatim>\<open>WebSocket.prototype.close\<close>: starts the closing handshake of a socket that is connecting
  or open, and does nothing otherwise. The \<^verbatim>\<open>close\<close> event is delivered later.\<close>

definition ws_close :: "socket \<Rightarrow> socket" where
  "ws_close k =
     (case readyState k of
        CONNECTING \<Rightarrow> k\<lparr>readyState := CLOSING\<rparr>
      | OPEN \<Rightarrow> k\<lparr>readyState := CLOSING\<rparr>
      | CLOSING \<Rightarrow> k
      | CLOSED \<Rightarrow> k)"

section \<open>RealtimeService\<close>

text \<open>
  The data handed to subscribers is either the object \<^verbatim>\<open>{ status: 'connected' }\<close> of the
  \<^verbatim>\<open>connection\<close> event or the payload of a decoded message.
\<close>

datatype 'p event_data = StatusConnected | Payload 'p

datatype console_line =
    LogConnected
  | LogDisconnected
  | LogReconnecting nat
  | LogParseError
  | LogWebSocketError

text \<open>
  The fields of the class, followed by the part of the world the class acts on: the sockets it
  has constructed, the pending \<^verbatim>\<open>setTimeout\<close> timers (their due times), the clock, the
  console, and the calls made to subscribers (event type, callback, data).
\<close>

record 'p realtime_service =
  ws :: "nat option"
  reconnectAttempts :: nat
  maxReconnectAttempts :: nat
  reconnectInterval :: nat
  subscribers :: "string \<rightharpoonup> cb list"
  sockets :: "socket list"
  timers :: "nat list"
  now :: nat
  console :: "console_line list"
  invoked :: "(string \<times> cb \<times> 'p event_data) list"

definition new_RealtimeService :: "'p realtime_service" where
  "new_RealtimeService =
     \<lparr>ws = None, reconnectAttempts = 0, maxReconnectAttempts = 5, reconnectInterval = 1000,
      subscribers = Map.empty, sockets = [], timers = [], now = 0, console = [], invoked = []\<rparr>"

text \<open>\<^verbatim>\<open>CONFIG.WEBSOCKET_URL\<close>, when the environment does not set another one.\<close>

definition WEBSOCKET_URL :: string where
  "WEBSOCKET_URL = ''wss://realtime.blinddinner.com''"

text \<open>The guard \<^verbatim>\<open>this.ws && this.ws.readyState === WebSocket.OPEN\<close> of \<^verbatim>\<open>connect\<close> and
  \<^verbatim>\<open>send\<close>: the service is connected.\<close>

definition is_open :: "'p realtime_service \<Rightarrow> bool" where
  "is_open s =
     (case ws s of
        None \<Rightarrow> False
      | Some i \<Rightarrow> i < length (sockets s) \<and> readyState (sockets s ! i) = OPEN)"

definition connect :: "'p realtime_service \<Rightarrow> string \<Rightarrow> 'p realtime_service" where
  "connect s token =
     (if is_open s then s
      else s\<lparr>ws := Some (length (sockets s)),
             sockets := sockets s @
               [\<lparr>url = WEBSOCKET_URL @ ''?token='' @ token, readyState = CONNECTING, sent = []\<rparr>]\<rparr>)"

definition handleReconnect :: "'p realtime_service \<Rightarrow> 'p realtime_service" where
  "handleReconnect s =
     (if reconnectAttempts s < maxReconnectAttempts s
      then s\<lparr>reconnectAttempts := reconnectAttempts s + 1,
             timers := timers s @ [now s + reconnectInterval s * (reconnectAttempts s + 1)]\<rparr>
      else s)"

text \<open>The timer callback of \<^verbatim>\<open>handleReconnect\<close>: it writes one console line, with the value
  the counter has when the timer fires, and does nothing else.\<close>

definition reconnect_timer :: "'p realtime_service \<Rightarrow> 'p realtime_service" where
  "reconnect_timer s = s\<lparr>console := console s @ [LogReconnecting (reconnectAttempts s)]\<rparr>"

definition subscribe :: "'p realtime_service \<Rightarrow> string \<Rightarrow> cb \<Rightarrow> 'p realtime_service" where
  "subscribe s eventType callback =
     s\<lparr>subscribers := (subscribers s)(eventType \<mapsto>
          set_add callback (case subscribers s eventType of None \<Rightarrow> [] | Some cs \<Rightarrow> cs))\<rparr>"

text \<open>The function returned by \<^verbatim>\<open>subscribe(eventType, callback)\<close>, called.\<close>

definition unsubscribe :: "'p realtime_service \<Rightarrow> string \<Rightarrow> cb \<Rightarrow> 'p realtime_service" where
  "unsubscribe s eventType callback =
     (case subscribers s eventType of
        None \<Rightarrow> s
      | Some cs \<Rightarrow> s\<lparr>subscribers := (subscribers s)(eventType \<mapsto> set_delete callback cs)\<rparr>)"

definition onEvent ::
  "(cb \<Rightarrow> 'p event_data \<Rightarrow> bool) \<Rightarrow> 'p realtime_service \<Rightarrow> string \<Rightarrow> 'p event_data \<Rightarrow>
     'p realtime_service \<times> unit outcome" where
  "onEvent thr s eventType d =
     (case subscribers s eventType of
        None \<Rightarrow> (s, Returned ())
      | Some callbacks \<Rightarrow>
          (case forEach_call thr callbacks d of
             (calls, r) \<Rightarrow>
               (s\<lparr>invoked := invoked s @ map (\<lambda>(c, x). (eventType, c, x)) calls\<rparr>, r)))"

text \<open>
  \<^verbatim>\<open>send\<close>: \<open>stringify t p\<close> stands for \<^verbatim>\<open>JSON.stringify({ type: t, payload: p })\<close>. The
  payload has the type \<^verbatim>\<open>any\<close>: for a payload that JSON can serialise the result is the text,
  and for one it cannot serialise (a circular structure, a \<^verbatim>\<open>BigInt\<close>) \<^verbatim>\<open>JSON.stringify\<close>
  throws a \<^verbatim>\<open>TypeError\<close>, which is \<open>None\<close> here. The argument is evaluated before
  \<^verbatim>\<open>this.ws.send\<close> is called, and only inside the guard.
\<close>

definition send ::
  "(string \<Rightarrow> 'p \<Rightarrow> string option) \<Rightarrow> 'p realtime_service \<Rightarrow> string \<Rightarrow> 'p \<Rightarrow>
     js_error + 'p realtime_service" where
  "send stringify s t payload =
     (case ws s of
        None \<Rightarrow> Inr s
      | Some i \<Rightarrow>
          if i < length (sockets s) \<and> readyState (sockets s ! i) = OPEN
          then (case stringify t payload of
                  None \<Rightarrow> Inl TypeError
                | Some txt \<Rightarrow>
                    (case ws_send (sockets s ! i) txt of
                       Inl e \<Rightarrow> Inl e
                     | Inr k \<Rightarrow> Inr (s\<lparr>sockets := (sockets s)[i := k]\<rparr>)))
          else Inr s)"

definition disconnect :: "'p realtime_service \<Rightarrow> 'p realtime_service" where
  "disconnect s =
     (case ws s of
        None \<Rightarrow> s
      | Some i \<Rightarrow> s\<lparr>sockets := (sockets s)[i := ws_close (sockets s ! i)], ws := None\<rparr>)"

text \<open>Everything handed to the transport so far: for each socket, in the order of construction,
  the texts sent on it.\<close>

definition transmitted :: "'p realtime_service \<Rightarrow> string list list" where
  "transmitted s = map sent (sockets s)"

section \<open>The event loop around RealtimeService\<close>

text \<open>
  \<open>decode\<close> stands for what the \<^verbatim>\<open>onmessage\<close> handler makes of a text: \<^verbatim>\<open>JSON.parse\<close>
  throws or reading \<^verbatim>\<open>data.type\<close> throws (\<open>ParseError\<close>), the parsed value has no string
  under \<^verbatim>\<open>type\<close> (\<open>NoType\<close>, no subscriber set is selected), or it is an envelope.
\<close>

datatype 'p decoded = ParseError | NoType | Envelope string 'p

text \<open>The four handlers that \<^verbatim>\<open>connect\<close> installs on the socket it constructs. They refer to
  the service only, so they are the same for every socket.\<close>

definition onopen ::
  "(cb \<Rightarrow> 'p event_data \<Rightarrow> bool) \<Rightarrow> 'p realtime_service \<Rightarrow> 'p realtime_service \<times> unit outcome" where
  "onopen thr s =
     onEvent thr (s\<lparr>console := console s @ [LogConnected], reconnectAttempts := 0\<rparr>)
       ''connection'' StatusConnected"

definition onmessage ::
  "(cb \<Rightarrow> 'p event_data \<Rightarrow> bool) \<Rightarrow> (string \<Rightarrow> 'p decoded) \<Rightarrow> 'p realtime_service \<Rightarrow> string \<Rightarrow>
     'p realtime_service" where
  "onmessage thr decode s txt =
     (case decode txt of
        ParseError \<Rightarrow> s\<lparr>console := console s @ [LogParseError]\<rparr>
      | NoType \<Rightarrow> s
      | Envelope t p \<Rightarrow>
          (case onEvent thr s t (Payload p) of
             (s', Returned u) \<Rightarrow> s'
           | (s', Threw c) \<Rightarrow> s'\<lparr>console := console s' @ [LogParseError]\<rparr>))"

definition onclose :: "'p realtime_service \<Rightarrow> 'p realtime_service" where
  "onclose s = handleReconnect (s\<lparr>console := console s @ [LogDisconnected]\<rparr>)"

definition onerror :: "'p realtime_service \<Rightarrow> 'p realtime_service" where
  "onerror s = s\<lparr>console := console s @ [LogWebSocketError]\<rparr>"

text \<open>
  What can happen to a service: a call of one of its public methods, an event of the transport
  on one of the sockets, or time passing. The transport opens a socket that is connecting,
  delivers messages on an open socket, and closes a socket that is not closed yet; the
  \<^verbatim>\<open>close\<close> event follows a \<^verbatim>\<open>close()\<close> call as well as a loss of the connection. An exception
  that leaves a handler or a call is reported and changes nothing further.
  When time passes, every timer that has become due runs; the timers of this service all run
  the same callback.
\<close>

datatype 'p rt_event =
    Call_connect string
  | Call_disconnect
  | Call_send string 'p
  | Call_subscribe string cb
  | Call_unsubscribe string cb
  | Ev_open nat
  | Ev_message nat string
  | Ev_close nat
  | Ev_error nat
  | Elapse nat

definition set_readyState :: "'p realtime_service \<Rightarrow> nat \<Rightarrow> ready_state \<Rightarrow> 'p realtime_service" where
  "set_readyState s i r = s\<lparr>sockets := (sockets s)[i := (sockets s ! i)\<lparr>readyState := r\<rparr>]\<rparr>"

definition elapse :: "'p realtime_service \<Rightarrow> nat \<Rightarrow> 'p realtime_service" where
  "elapse s dt =
     (fold (\<lambda>due. reconnect_timer) (filter (\<lambda>due. due \<le> now s + dt) (timers s)) s)
       \<lparr>timers := filter (\<lambda>due. \<not> due \<le> now s + dt) (timers s), now := now s + dt\<rparr>"

fun rt_step ::
  "(cb \<Rightarrow> 'p event_data \<Rightarrow> bool) \<Rightarrow> (string \<Rightarrow> 'p decoded) \<Rightarrow>
     (string \<Rightarrow> 'p \<Rightarrow> string option) \<Rightarrow>
     'p realtime_service \<Rightarrow> 'p rt_event \<Rightarrow> 'p realtime_service" where
  "rt_step thr decode stringify s (Call_connect token) = connect s token"
| "rt_step thr decode stringify s Call_disconnect = disconnect s"
| "rt_step thr decode stringify s (Call_send t p) =
     (case send stringify s t p of Inl e \<Rightarrow> s | Inr s' \<Rightarrow> s')"
| "rt_step thr decode stringify s (Call_subscribe t c) = subscribe s t c"
| "rt_step thr decode stringify s (Call_unsubscribe t c) = unsubscribe s t c"
| "rt_step thr decode stringify s (Ev_open i) =
     (if i < length (sockets s) \<and> readyState (sockets s ! i) = CONNECTING
      then fst (onopen thr (set_readyState s i OPEN)) else s)"
| "rt_step thr decode stringify s (Ev_message i txt) =
     (if i < length (sockets s) \<and> readyState (sockets s ! i) = OPEN
      then onmessage thr decode s txt else s)"
| "rt_step thr decode stringify s (Ev_close i) =
     (if i < length (sockets s) \<and> readyState (sockets s ! i) \<noteq> CLOSED
      then onclose (set_readyState s i CLOSED) else s)"
| "rt_step thr decode stringify s (Ev_error i) =
     (if i < length (sockets s) then onerror s else s)"
| "rt_step thr decode stringify s (Elapse dt) = elapse s dt"

definition rt_run ::
  "(cb \<Rightarrow> 'p event_data \<Rightarrow> bool) \<Rightarrow> (string \<Rightarrow> 'p decoded) \<Rightarrow>
     (string \<Rightarrow> 'p \<Rightarrow> string option) \<Rightarrow>
     'p realtime_service \<Rightarrow> 'p rt_event list \<Rightarrow> 'p realtime_service" where
  "rt_run thr decode stringify s evs = foldl (rt_step thr decode stringify) s evs"

section \<open>NotificationService\<close>

datatype notification_type = SUCCESS | ERROR | WARNING | INFO

text \<open>
  The interface \<^verbatim>\<open>Notification\<close>. \<^verbatim>\<open>timestamp\<close> is a \<^verbatim>\<open>Date\<close>, kept as its milliseconds;
  the optional \<^verbatim>\<open>action\<close> is a label and a function reference.
\<close>

record notification =
  id_n :: string
  type_n :: notification_type
  message :: string
  details :: "string option"
  timestamp :: nat
  read :: bool
  persistent :: "bool option"
  action :: "(string \<times> cb) option"

text \<open>
  \<^verbatim>\<open>Partial<Notification>\<close>, the type of the \<^verbatim>\<open>options\<close> of the four convenience methods: every
  property may be present or absent. (A property that is present with the value
  \<^verbatim>\<open>undefined\<close> is not modelled.)
\<close>

record partial_notification =
  id_opt :: "string option"
  type_opt :: "notification_type option"
  message_opt :: "string option"
  details_opt :: "string option"
  timestamp_opt :: "nat option"
  read_opt :: "bool option"
  persistent_opt :: "bool option"
  action_opt :: "(string \<times> cb) option"

definition no_options :: partial_notification where
  "no_options =
     \<lparr>id_opt = None, type_opt = None, message_opt = None, details_opt = None,
      timestamp_opt = None, read_opt = None, persistent_opt = None, action_opt = None\<rparr>"

text \<open>
  The object that \<^verbatim>\<open>add\<close> receives. Its declared type,
  \<^verbatim>\<open>Omit<Notification, 'id' | 'timestamp' | 'read'>\<close>, requires \<^verbatim>\<open>type\<close> and \<^verbatim>\<open>message\<close> and
  allows \<^verbatim>\<open>details\<close>, \<^verbatim>\<open>persistent\<close> and \<^verbatim>\<open>action\<close>. The convenience methods build the
  object as \<^verbatim>\<open>{ type, message, ...options }\<close> with \<^verbatim>\<open>options: Partial<Notification>\<close>, so
  the object can carry \<^verbatim>\<open>id\<close>, \<^verbatim>\<open>timestamp\<close> and \<^verbatim>\<open>read\<close> as well: the last three
  fields.
\<close>

record notification_input =
  type_i :: notification_type
  message_i :: string
  details_i :: "string option"
  persistent_i :: "bool option"
  action_i :: "(string \<times> cb) option"
  id_i :: "string option"
  timestamp_i :: "nat option"
  read_i :: "bool option"

text \<open>
  The fields of the class, followed by the world it acts on: the pending \<^verbatim>\<open>setTimeout\<close>
  timers (due time and the id that the callback removes), the clock in milliseconds, and the
  calls made to subscribers (callback and the list it was given).
\<close>

record notification_service =
  notifications :: "notification list"
  subscribers_n :: "cb list"
  timers_n :: "(nat \<times> string) list"
  now_n :: nat
  delivered :: "(cb \<times> notification list) list"

definition new_NotificationService :: notification_service where
  "new_NotificationService =
     \<lparr>notifications = [], subscribers_n = [], timers_n = [], now_n = 0, delivered = []\<rparr>"

text \<open>\<^verbatim>\<open>Number.prototype.toString\<close> on a clock reading: its decimal digits.\<close>

fun digits :: "nat \<Rightarrow> string" where
  "digits n = (if n < 10 then [''0123456789'' ! n]
               else digits (n div 10) @ [''0123456789'' ! (n mod 10)])"

declare digits.simps [simp del]

definition toString :: "nat \<Rightarrow> string" where
  "toString n = digits n"

definition notifySubscribers ::
  "(cb \<Rightarrow> notification list \<Rightarrow> bool) \<Rightarrow> notification_service \<Rightarrow>
     notification_service \<times> unit outcome" where
  "notifySubscribers thr s =
     (case forEach_call thr (subscribers_n s) (notifications s) of
        (calls, r) \<Rightarrow> (s\<lparr>delivered := delivered s @ calls\<rparr>, r))"

text \<open>The object literal
  \<^verbatim>\<open>{ id, timestamp: new Date(), read: false, ...notification }\<close> of \<^verbatim>\<open>add\<close>: the spread comes
  last, so a property that the argument carries replaces the one written before it.\<close>

definition newNotification :: "notification_service \<Rightarrow> notification_input \<Rightarrow> notification" where
  "newNotification s notification =
     \<lparr>id_n = (case id_i notification of None \<Rightarrow> toString (now_n s) | Some x \<Rightarrow> x),
      type_n = type_i notification,
      message = message_i notification,
      details = details_i notification,
      timestamp = (case timestamp_i notification of None \<Rightarrow> now_n s | Some t \<Rightarrow> t),
      read = (case read_i notification of None \<Rightarrow> False | Some r \<Rightarrow> r),
      persistent = persistent_i notification,
      action = action_i notification\<rparr>"

text \<open>\<^verbatim>\<open>add\<close>: when a subscriber throws, the exception leaves \<^verbatim>\<open>add\<close> after the
  \<^verbatim>\<open>unshift\<close>, before the timer is set and before anything is returned.\<close>

definition add ::
  "(cb \<Rightarrow> notification list \<Rightarrow> bool) \<Rightarrow> notification_service \<Rightarrow> notification_input \<Rightarrow>
     notification_service \<times> string outcome" where
  "add thr s notification =
     (case notifySubscribers thr
             (s\<lparr>notifications := newNotification s notification # notifications s\<rparr>) of
        (s', Threw c) \<Rightarrow> (s', Threw c)
      | (s', Returned u) \<Rightarrow>
          (if persistent_i notification \<noteq> Some True
           then s'\<lparr>timers_n := timers_n s' @ [(now_n s + 5000, toString (now_n s))]\<rparr>
           else s',
           Returned (toString (now_n s))))"

definition remove ::
  "(cb \<Rightarrow> notification list \<Rightarrow> bool) \<Rightarrow> notification_service \<Rightarrow> string \<Rightarrow>
     notification_service \<times> unit outcome" where
  "remove thr s i =
     notifySubscribers thr (s\<lparr>notifications := filter (\<lambda>n. id_n n \<noteq> i) (notifications s)\<rparr>)"

text \<open>\<^verbatim>\<open>notification.read = true\<close> on the object that \<^verbatim>\<open>find\<close> returned, the first one of the
  array with that id: the array now holds the changed object at that place.\<close>

fun set_read_first :: "string \<Rightarrow> notification list \<Rightarrow> notification list" where
  "set_read_first i [] = []"
| "set_read_first i (n # ns) =
     (if id_n n = i then n\<lparr>read := True\<rparr> # ns else n # set_read_first i ns)"

definition markAsRead ::
  "(cb \<Rightarrow> notification list \<Rightarrow> bool) \<Rightarrow> notification_service \<Rightarrow> string \<Rightarrow>
     notification_service \<times> unit outcome" where
  "markAsRead thr s i =
     (case find (\<lambda>n. id_n n = i) (notifications s) of
        None \<Rightarrow> (s, Returned ())
      | Some notification \<Rightarrow>
          notifySubscribers thr (s\<lparr>notifications := set_read_first i (notifications s)\<rparr>))"

definition subscribe_n :: "notification_service \<Rightarrow> cb \<Rightarrow> notification_service" where
  "subscribe_n s callback = s\<lparr>subscribers_n := set_add callback (subscribers_n s)\<rparr>"

definition unsubscribe_n :: "notification_service \<Rightarrow> cb \<Rightarrow> notification_service" where
  "unsubscribe_n s callback = s\<lparr>subscribers_n := set_delete callback (subscribers_n s)\<rparr>"

text \<open>The argument objects of the convenience methods, \<^verbatim>\<open>{ type, message, ...options }\<close>.\<close>

definition spread ::
  "notification_type \<Rightarrow> string \<Rightarrow> bool option \<Rightarrow> partial_notification \<Rightarrow> notification_input" where
  "spread t m p options =
     \<lparr>type_i = (case type_opt options of None \<Rightarrow> t | Some x \<Rightarrow> x),
      message_i = (case message_opt options of None \<Rightarrow> m | Some x \<Rightarrow> x),
      details_i = details_opt options,
      persistent_i = (case persistent_opt options of None \<Rightarrow> p | Some x \<Rightarrow> Some x),
      action_i = action_opt options,
      id_i = id_opt options,
      timestamp_i = timestamp_opt options,
      read_i = read_opt options\<rparr>"

definition success ::
  "(cb \<Rightarrow> notification list \<Rightarrow> bool) \<Rightarrow> notification_service \<Rightarrow> string \<Rightarrow> partial_notification \<Rightarrow>
     notification_service \<times> string outcome" where
  "success thr s m options = add thr s (spread SUCCESS m None options)"

definition error ::
  "(cb \<Rightarrow> notification list \<Rightarrow> bool) \<Rightarrow> notification_service \<Rightarrow> string \<Rightarrow> partial_notification \<Rightarrow>
     notification_service \<times> string outcome" where
  "error thr s m options = add thr s (spread ERROR m (Some True) options)"

definition warning ::
  "(cb \<Rightarrow> notification list \<Rightarrow> bool) \<Rightarrow> notification_service \<Rightarrow> string \<Rightarrow> partial_notification \<Rightarrow>
     notification_service \<times> string outcome" where
  "warning thr s m options = add thr s (spread WARNING m None options)"

definition info ::
  "(cb \<Rightarrow> notification list \<Rightarrow> bool) \<Rightarrow> notification_service \<Rightarrow> string \<Rightarrow> partial_notification \<Rightarrow>
     notification_service \<times> string outcome" where
  "info thr s m options = add thr s (spread INFO m None options)"

text \<open>
  Time passing: the timers that have become due run in the order of their due times (timers
  due at the same time in the order they were set); each calls \<^verbatim>\<open>this.remove(id)\<close>. An
  exception that leaves a timer callback is reported by the event loop.
\<close>

definition elapse_n ::
  "(cb \<Rightarrow> notification list \<Rightarrow> bool) \<Rightarrow> notification_service \<Rightarrow> nat \<Rightarrow> notification_service" where
  "elapse_n thr s dt =
     (fold (\<lambda>(due, i) s'. fst (remove thr s' i))
        (sort_key fst (filter (\<lambda>(due, i). due \<le> now_n s + dt) (timers_n s)))
        (s\<lparr>timers_n := filter (\<lambda>(due, i). \<not> due \<le> now_n s + dt) (timers_n s)\<rparr>))
       \<lparr>now_n := now_n s + dt\<rparr>"

datatype ns_event =
    Call_add notification_input
  | Call_remove string
  | Call_markAsRead string
  | Call_subscribe_n cb
  | Call_unsubscribe_n cb
  | Call_success string partial_notification
  | Call_error string partial_notification
  | Call_warning string partial_notification
  | Call_info string partial_notification
  | Elapse_n nat

fun ns_step ::
  "(cb \<Rightarrow> notification list \<Rightarrow> bool) \<Rightarrow> notification_service \<Rightarrow> ns_event \<Rightarrow> notification_service" where
  "ns_step thr s (Call_add a) = fst (add thr s a)"
| "ns_step thr s (Call_remove i) = fst (remove thr s i)"
| "ns_step thr s (Call_markAsRead i) = fst (markAsRead thr s i)"
| "ns_step thr s (Call_subscribe_n c) = subscribe_n s c"
| "ns_step thr s (Call_unsubscribe_n c) = unsubscribe_n s c"
| "ns_step thr s (Call_success m options) = fst (success thr s m options)"
| "ns_step thr s (Call_error m options) = fst (error thr s m options)"
| "ns_step thr s (Call_warning m options) = fst (warning thr s m options)"
| "ns_step thr s (Call_info m options) = fst (info thr s m options)"
| "ns_step thr s (Elapse_n dt) = elapse_n thr s dt"

definition ns_run ::
  "(cb \<Rightarrow> notification list \<Rightarrow> bool) \<Rightarrow> notification_service \<Rightarrow> ns_event list \<Rightarrow> notification_service" where
  "ns_run thr s evs = foldl (ns_step thr) s evs"

text \<open>A notification with the given id is in the queue.\<close>

definition present :: "notification_service \<Rightarrow> string \<Rightarrow> bool" where
  "present s i = (i \<in> set (map id_n (notifications s)))"

text \<open>The object that a call hands to \<^verbatim>\<open>add\<close>, for the five calls that add a notification.\<close>

fun added :: "ns_event \<Rightarrow> notification_input option" where
  "added (Call_add a) = Some a"
| "added (Call_success m options) = Some (spread SUCCESS m None options)"
| "added (Call_error m options) = Some (spread ERROR m (Some True) options)"
| "added (Call_warning m options) = Some (spread WARNING m None options)"
| "added (Call_info m options) = Some (spread INFO m None options)"
| "added e = None"

text \<open>
  Step \<open>e\<close>, taken in state \<open>s\<close>, leaves the id \<open>i\<close> alone: it is not the call \<^verbatim>\<open>remove(i)\<close>,
  and it is not an add whose notification gets the id \<open>i\<close> or whose timer is set for the id
  \<open>i\<close>. A run leaves the id alone when each of its steps does, in the state it is taken in.
\<close>

definition leaves_id :: "notification_service \<Rightarrow> ns_event \<Rightarrow> string \<Rightarrow> bool" where
  "leaves_id s e i =
     (e \<noteq> Call_remove i \<and>
      (case added e of
         None \<Rightarrow> True
       | Some a \<Rightarrow>
           id_n (newNotification s a) \<noteq> i \<and>
           (persistent_i a \<noteq> Some True \<longrightarrow> toString (now_n s) \<noteq> i)))"

fun run_leaves_id ::
  "(cb \<Rightarrow> notification list \<Rightarrow> bool) \<Rightarrow> notification_service \<Rightarrow> ns_event list \<Rightarrow> string \<Rightarrow> bool" where
  "run_leaves_id thr s [] i = True"
| "run_leaves_id thr s (e # evs) i =
     (leaves_id s e i \<and> run_leaves_id thr (ns_step thr s e) evs i)"

section \<open>The subscription registry under sequences of operations\<close>

text \<open>
  The operations on the registry of \<^verbatim>\<open>RealtimeService\<close>: \<^verbatim>\<open>subscribe(k, c)\<close>, a call of the
  function that \<^verbatim>\<open>subscribe(k, c)\<close> returned, and a dispatch \<^verbatim>\<open>onEvent(k, d)\<close>.
\<close>

datatype 'p reg_op = Subscribe string cb | Unsubscribe string cb | Dispatch string "'p event_data"

fun reg_step ::
  "(cb \<Rightarrow> 'p event_data \<Rightarrow> bool) \<Rightarrow> 'p realtime_service \<Rightarrow> 'p reg_op \<Rightarrow> 'p realtime_service" where
  "reg_step thr s (Subscribe k c) = subscribe s k c"
| "reg_step thr s (Unsubscribe k c) = unsubscribe s k c"
| "reg_step thr s (Dispatch k d) = fst (onEvent thr s k d)"

definition reg_run ::
  "(cb \<Rightarrow> 'p event_data \<Rightarrow> bool) \<Rightarrow> 'p realtime_service \<Rightarrow> 'p reg_op list \<Rightarrow> 'p realtime_service" where
  "reg_run thr s ops = foldl (reg_step thr) s ops"

text \<open>Callback \<open>c\<close> is in the set stored under key \<open>k\<close>.\<close>

definition is_registered :: "'p realtime_service \<Rightarrow> string \<Rightarrow> cb \<Rightarrow> bool" where
  "is_registered s k c = (case subscribers s k of None \<Rightarrow> False | Some cs \<Rightarrow> c \<in> set cs)"

text \<open>The stored sets hold each callback once.\<close>

definition reg_wf :: "'p realtime_service \<Rightarrow> bool" where
  "reg_wf s = (\<forall>k cs. subscribers s k = Some cs \<longrightarrow> distinct cs)"

text \<open>The data that callback \<open>c\<close> was called with for key \<open>k\<close>, in order.\<close>

definition calls_of :: "string \<Rightarrow> cb \<Rightarrow> (string \<times> cb \<times> 'd) list \<Rightarrow> 'd list" where
  "calls_of k c log = map (\<lambda>(k', c', d). d) (filter (\<lambda>(k', c', d). k' = k \<and> c' = c) log)"

text \<open>
  The specification's words: the dispatches of key \<open>k\<close> that occur while \<open>c\<close> is registered
  under \<open>k\<close>, where \<open>R\<close> holds the registrations at the start, \<^verbatim>\<open>subscribe\<close> registers and the
  returned handle unregisters.
\<close>

fun received_spec ::
  "(string \<Rightarrow> cb \<Rightarrow> bool) \<Rightarrow> 'p reg_op list \<Rightarrow> string \<Rightarrow> cb \<Rightarrow> 'p event_data list" where
  "received_spec R [] k c = []"
| "received_spec R (Subscribe k' c' # ops) k c =
     received_spec (\<lambda>a b. (a = k' \<and> b = c') \<or> R a b) ops k c"
| "received_spec R (Unsubscribe k' c' # ops) k c =
     received_spec (\<lambda>a b. \<not> (a = k' \<and> b = c') \<and> R a b) ops k c"
| "received_spec R (Dispatch k' d # ops) k c =
     (if k' = k \<and> R k c then d # received_spec R ops k c else received_spec R ops k c)"

section \<open>Properties of send\<close>

lemma send_connected:
  assumes "ws s = Some i" "i < length (sockets s)" "readyState (sockets s ! i) = OPEN"
    "f t p = Some txt"
  shows "send f s t p =
           Inr (s\<lparr>sockets := (sockets s)[i := (sockets s ! i)\<lparr>sent := sent (sockets s ! i) @ [txt]\<rparr>]\<rparr>)"
  using assms by (simp add: send_def ws_send_def)

lemma send_not_connected: "\<not> is_open s \<Longrightarrow> send f s t p = Inr s"
  by (auto simp: send_def is_open_def split: option.splits)

lemma send_unserialisable: "is_open s \<Longrightarrow> f t p = None \<Longrightarrow> send f s t p = Inl TypeError"
  by (auto simp: send_def is_open_def split: option.splits)

lemma send_no_InvalidStateError: "send f s t p \<noteq> Inl InvalidStateError"
  by (auto simp: send_def ws_send_def split: option.splits)

lemma send_serialisable:
  assumes "is_open s" "f t p = Some txt"
  shows "\<exists>s' i. send f s t p = Inr s' \<and> ws s = Some i \<and> i < length (sockets s) \<and>
           transmitted s' = (transmitted s)[i := transmitted s ! i @ [txt]] \<and>
           s' = s\<lparr>sockets := sockets s'\<rparr> \<and>
           map url (sockets s') = map url (sockets s) \<and>
           map readyState (sockets s') = map readyState (sockets s) \<and>
           transmitted s' \<noteq> transmitted s"
proof -
  from assms(1) obtain i where
    i: "ws s = Some i" "i < length (sockets s)" "readyState (sockets s ! i) = OPEN"
    by (auto simp: is_open_def split: option.splits)
  let ?k = "(sockets s ! i)\<lparr>sent := sent (sockets s ! i) @ [txt]\<rparr>"
  let ?s' = "s\<lparr>sockets := (sockets s)[i := ?k]\<rparr>"
  have eq: "send f s t p = Inr ?s'"
    using i assms(2) by (rule send_connected)
  have tr: "transmitted ?s' = (transmitted s)[i := transmitted s ! i @ [txt]]"
    using i(2) by (simp add: transmitted_def map_update)
  have ne: "transmitted ?s' \<noteq> transmitted s"
  proof
    assume "transmitted ?s' = transmitted s"
    then have "transmitted ?s' ! i = transmitted s ! i" by simp
    then show False using i(2) by (simp add: transmitted_def)
  qed
  have u: "map url (sockets ?s') = map url (sockets s)"
    using i(2) by (simp add: map_update list_update_same_conv)
  have r: "map readyState (sockets ?s') = map readyState (sockets s)"
    using i(2) by (simp add: map_update list_update_same_conv)
  have "send f s t p = Inr ?s' \<and> ws s = Some i \<and> i < length (sockets s) \<and>
           transmitted ?s' = (transmitted s)[i := transmitted s ! i @ [txt]] \<and>
           ?s' = s\<lparr>sockets := sockets ?s'\<rparr> \<and>
           map url (sockets ?s') = map url (sockets s) \<and>
           map readyState (sockets ?s') = map readyState (sockets s) \<and>
           transmitted ?s' \<noteq> transmitted s"
    using i eq tr ne u r by simp
  then show ?thesis by (intro exI [of _ ?s'] exI [of _ i])
qed

text \<open>
  Claim C3, as the code has it. When the service is not connected (it holds no socket, or its
  socket is not open), \<^verbatim>\<open>send(type, payload)\<close> returns with the state as it was, whatever the
  payload: nothing reaches the transport, nothing is queued, no error is raised. When it is
  connected and \<^verbatim>\<open>JSON.stringify\<close> throws on the envelope, that \<^verbatim>\<open>TypeError\<close> leaves \<^verbatim>\<open>send\<close>
  and nothing is transmitted. When it is connected and the envelope serialises to a text, that
  text, and nothing else, is appended to what the socket has transmitted, and no other part of
  the state changes. The exception of the socket's own \<^verbatim>\<open>send\<close> never occurs.
\<close>

theorem send_drops_throws_or_transmits:
  "(\<not> is_open s \<longrightarrow> send f s t p = Inr s) \<and>
   (is_open s \<and> f t p = None \<longrightarrow> send f s t p = Inl TypeError) \<and>
   (\<forall>txt. is_open s \<and> f t p = Some txt \<longrightarrow>
      (\<exists>s' i. send f s t p = Inr s' \<and> ws s = Some i \<and> i < length (sockets s) \<and>
         transmitted s' = (transmitted s)[i := transmitted s ! i @ [txt]] \<and>
         s' = s\<lparr>sockets := sockets s'\<rparr> \<and>
         map url (sockets s') = map url (sockets s) \<and>
         map readyState (sockets s') = map readyState (sockets s) \<and>
         transmitted s' \<noteq> transmitted s)) \<and>
   send f s t p \<noteq> Inl InvalidStateError"
  using send_not_connected [of s f t p] send_unserialisable [of s f t p]
    send_serialisable [of s f t p] send_no_InvalidStateError [of f s t p]
  by blast

theorem send_drops_throws_or_transmits_witness:
  "is_open (rt_run (\<lambda>c d. False) (\<lambda>txt. NoType) (\<lambda>t p. Some t)
              (new_RealtimeService :: unit realtime_service) [Call_connect ''tok'', Ev_open 0]) \<and>
   (\<exists>s'. send (\<lambda>t p. Some t)
            (rt_run (\<lambda>c d. False) (\<lambda>txt. NoType) (\<lambda>t p. Some t)
               (new_RealtimeService :: unit realtime_service) [Call_connect ''tok'', Ev_open 0])
            ''ping'' () = Inr s' \<and>
         transmitted s' = [[''ping'']]) \<and>
   send (\<lambda>t p. None)
     (rt_run (\<lambda>c d. False) (\<lambda>txt. NoType) (\<lambda>t p. Some t)
        (new_RealtimeService :: unit realtime_service) [Call_connect ''tok'', Ev_open 0])
     ''ping'' () = Inl TypeError \<and>
   \<not> is_open (new_RealtimeService :: unit realtime_service) \<and>
   send (\<lambda>t p. None) (new_RealtimeService :: unit realtime_service) ''ping'' () =
     Inr new_RealtimeService"
proof -
  let ?s = "rt_run (\<lambda>c d. False) (\<lambda>txt. NoType) (\<lambda>t p. Some t)
              (new_RealtimeService :: unit realtime_service) [Call_connect ''tok'', Ev_open 0]"
  have o: "is_open ?s" "transmitted ?s = [[]]"
    by (simp_all add: rt_run_def new_RealtimeService_def connect_def is_open_def onopen_def
          onEvent_def set_readyState_def transmitted_def)
  have n: "\<not> is_open (new_RealtimeService :: unit realtime_service)"
    by (simp add: is_open_def new_RealtimeService_def)
  from send_drops_throws_or_transmits [of ?s "\<lambda>t p. Some t" "''ping''" "()"] o(1)
  obtain s' i where a: "send (\<lambda>t p. Some t) ?s ''ping'' () = Inr s'"
    "transmitted s' = (transmitted ?s)[i := transmitted ?s ! i @ [''ping'']]"
    "i < length (sockets ?s)"
    by auto
  have "length (sockets ?s) = 1"
    by (simp add: rt_run_def new_RealtimeService_def connect_def is_open_def onopen_def
          onEvent_def set_readyState_def)
  then have "transmitted s' = [[''ping'']]"
    using a(2,3) o(2) by simp
  then show ?thesis
    using o(1) n a(1)
      send_drops_throws_or_transmits [of ?s "\<lambda>t p. None" "''ping''" "()"]
      send_drops_throws_or_transmits
        [of "new_RealtimeService :: unit realtime_service" "\<lambda>t p. None" "''ping''" "()"]
    by simp
qed

text \<open>
  Claim C3 as stated fails: the service is connected and \<^verbatim>\<open>send('ping', payload)\<close> is called
  with a payload that \<^verbatim>\<open>JSON.stringify\<close> cannot serialise. The envelope is not transmitted:
  the \<^verbatim>\<open>TypeError\<close> leaves \<^verbatim>\<open>send\<close>, and the run that contains the call leaves the socket with
  nothing transmitted.
\<close>

theorem send_connected_throws:
  "is_open (rt_run (\<lambda>c d. False) (\<lambda>txt. NoType) (\<lambda>t p. None)
              (new_RealtimeService :: unit realtime_service) [Call_connect ''tok'', Ev_open 0]) \<and>
   send (\<lambda>t p. None)
     (rt_run (\<lambda>c d. False) (\<lambda>txt. NoType) (\<lambda>t p. None)
        (new_RealtimeService :: unit realtime_service) [Call_connect ''tok'', Ev_open 0])
     ''ping'' () = Inl TypeError \<and>
   transmitted
     (rt_run (\<lambda>c d. False) (\<lambda>txt. NoType) (\<lambda>t p. None)
        (new_RealtimeService :: unit realtime_service)
        [Call_connect ''tok'', Ev_open 0, Call_send ''ping'' ()]) = [[]]"
  by (simp add: rt_run_def new_RealtimeService_def connect_def is_open_def onopen_def
        onEvent_def set_readyState_def transmitted_def send_def)

section \<open>The reconnect policy\<close>

lemma fold_reconnect_timer:
  "sockets (fold (\<lambda>due. reconnect_timer) ds s) = sockets s \<and>
   ws (fold (\<lambda>due. reconnect_timer) ds s) = ws s \<and>
   reconnectAttempts (fold (\<lambda>due. reconnect_timer) ds s) = reconnectAttempts s"
  by (induction ds arbitrary: s) (simp_all add: reconnect_timer_def)

text \<open>Timers that become due never construct a socket, never change which socket the service
  holds, and never change the counter.\<close>

lemma elapse_no_connect:
  "sockets (elapse s dt) = sockets s \<and> ws (elapse s dt) = ws s \<and>
   reconnectAttempts (elapse s dt) = reconnectAttempts s"
  by (simp add: elapse_def fold_reconnect_timer)

text \<open>A close below the cap advances the counter to \<open>n\<close> and sets a timer
  \<open>reconnectInterval * n\<close> ahead; at the cap a close changes neither.\<close>

lemma handleReconnect_below_cap:
  "reconnectAttempts s < maxReconnectAttempts s \<Longrightarrow>
     reconnectAttempts (handleReconnect s) = reconnectAttempts s + 1 \<and>
     timers (handleReconnect s) =
       timers s @ [now s + reconnectInterval s * reconnectAttempts (handleReconnect s)]"
  by (simp add: handleReconnect_def)

lemma handleReconnect_at_cap:
  "\<not> reconnectAttempts s < maxReconnectAttempts s \<Longrightarrow> handleReconnect s = s"
  by (simp add: handleReconnect_def)

lemma handleReconnect_no_connect:
  "sockets (handleReconnect s) = sockets s \<and> ws (handleReconnect s) = ws s"
  by (simp add: handleReconnect_def)

lemma sockets_onEvent: "sockets (fst (onEvent thr s k d)) = sockets s \<and> ws (fst (onEvent thr s k d)) = ws s"
  by (simp add: onEvent_def split: option.splits prod.splits)

lemma sockets_onmessage:
  "sockets (onmessage thr decode s txt) = sockets s \<and> ws (onmessage thr decode s txt) = ws s"
proof (cases "decode txt")
  case ParseError
  then show ?thesis by (simp add: onmessage_def)
next
  case NoType
  then show ?thesis by (simp add: onmessage_def)
next
  case (Envelope k p)
  obtain s' r where e: "onEvent thr s k (Payload p) = (s', r)"
    by (cases "onEvent thr s k (Payload p)")
  have "sockets s' = sockets s \<and> ws s' = ws s"
    using sockets_onEvent [of thr s k "Payload p"] e by simp
  then show ?thesis
    using Envelope e by (cases r) (simp_all add: onmessage_def)
qed

text \<open>No call but \<^verbatim>\<open>connect\<close>, no event of the transport and no timer constructs a socket:
  without an explicit \<^verbatim>\<open>connect\<close> the service makes no connection attempt.\<close>

lemma step_constructs_no_socket:
  assumes "\<forall>token. e \<noteq> Call_connect token"
  shows "length (sockets (rt_step thr decode stringify s e)) = length (sockets s)"
proof (cases e)
  case (Call_connect token)
  then show ?thesis using assms by simp
next
  case Call_disconnect
  then show ?thesis by (simp add: disconnect_def split: option.splits)
next
  case (Call_send t p)
  then show ?thesis
    by (auto simp: send_def ws_send_def split: option.splits sum.splits ready_state.splits)
next
  case (Call_subscribe t c)
  then show ?thesis by (simp add: subscribe_def)
next
  case (Call_unsubscribe t c)
  then show ?thesis by (simp add: unsubscribe_def split: option.splits)
next
  case (Ev_open i)
  then show ?thesis
    using sockets_onEvent [of thr "(set_readyState s i OPEN)\<lparr>console := console s @ [LogConnected], reconnectAttempts := 0\<rparr>" "''connection''" StatusConnected]
    by (simp add: onopen_def set_readyState_def)
next
  case (Ev_message i msg)
  then show ?thesis by (simp add: sockets_onmessage)
next
  case (Ev_close i)
  then show ?thesis by (simp add: onclose_def handleReconnect_def set_readyState_def)
next
  case (Ev_error i)
  then show ?thesis by (simp add: onerror_def)
next
  case (Elapse dt)
  then show ?thesis by (simp add: elapse_no_connect)
qed

lemma run_constructs_no_socket:
  "\<forall>e\<in>set evs. \<forall>token. e \<noteq> Call_connect token \<Longrightarrow>
     length (sockets (rt_run thr decode stringify s evs)) = length (sockets s)"
proof (induction evs arbitrary: s)
  case Nil
  then show ?case by (simp add: rt_run_def)
next
  case (Cons e evs)
  have "rt_run thr decode stringify s (e # evs) =
        rt_run thr decode stringify (rt_step thr decode stringify s e) evs"
    by (simp add: rt_run_def)
  then show ?case
    using Cons.IH [of "rt_step thr decode stringify s e"] Cons.prems
      step_constructs_no_socket [of e thr decode stringify s]
    by simp
qed

text \<open>The socket the service holds is always one it has constructed, so the range checks of
  \<open>is_open\<close> and \<open>send\<close> never decide anything.\<close>

lemma ws_in_range_step:
  assumes "\<forall>i. ws s = Some i \<longrightarrow> i < length (sockets s)"
  shows "\<forall>i. ws (rt_step thr decode stringify s e) = Some i \<longrightarrow>
           i < length (sockets (rt_step thr decode stringify s e))"
proof (cases e)
  case (Call_connect token)
  then show ?thesis using assms by (simp add: connect_def)
next
  case Call_disconnect
  then show ?thesis by (simp add: disconnect_def split: option.splits)
next
  case (Call_send t p)
  then show ?thesis
    using assms
    by (auto simp: send_def ws_send_def split: option.splits sum.splits ready_state.splits)
next
  case (Call_subscribe t c)
  then show ?thesis using assms by (simp add: subscribe_def)
next
  case (Call_unsubscribe t c)
  then show ?thesis using assms by (simp add: unsubscribe_def split: option.splits)
next
  case (Ev_open i)
  then show ?thesis
    using assms sockets_onEvent [of thr "(set_readyState s i OPEN)\<lparr>console := console s @ [LogConnected], reconnectAttempts := 0\<rparr>" "''connection''" StatusConnected]
    by (simp add: onopen_def set_readyState_def)
next
  case (Ev_message i msg)
  then show ?thesis using assms by (simp add: sockets_onmessage)
next
  case (Ev_close i)
  then show ?thesis using assms by (simp add: onclose_def handleReconnect_def set_readyState_def)
next
  case (Ev_error i)
  then show ?thesis using assms by (simp add: onerror_def)
next
  case (Elapse dt)
  then show ?thesis using assms by (simp add: elapse_no_connect)
qed

lemma ws_in_range_run:
  "\<forall>i. ws s = Some i \<longrightarrow> i < length (sockets s) \<Longrightarrow>
     \<forall>i. ws (rt_run thr decode stringify s evs) = Some i \<longrightarrow>
         i < length (sockets (rt_run thr decode stringify s evs))"
proof (induction evs arbitrary: s)
  case Nil
  then show ?case by (simp add: rt_run_def)
next
  case (Cons e evs)
  have "rt_run thr decode stringify s (e # evs) =
        rt_run thr decode stringify (rt_step thr decode stringify s e) evs"
    by (simp add: rt_run_def)
  then show ?case
    using Cons.IH [OF ws_in_range_step [OF Cons.prems, of thr decode stringify e]] by simp
qed

text \<open>
  Claim C1, evaluated on the scenario of the specification: \<^verbatim>\<open>connect('tok')\<close> succeeds, the
  transport closes, one base interval passes and then a further minute. The close advances the
  counter to 1 and sets a timer 1000 ms ahead; when the timer runs it writes the console line
  \<^verbatim>\<open>Reconnecting... attempt 1\<close> and nothing else. No second socket is ever constructed: the
  service still holds the closed socket and is not connected.
\<close>

theorem reconnect_timer_only_logs:
  "(let s0 = rt_run (\<lambda>c d. False) (\<lambda>txt. NoType) (\<lambda>t p. Some t)
               (new_RealtimeService :: unit realtime_service)
               [Call_connect ''tok'', Ev_open 0, Ev_close 0];
        s1 = rt_step (\<lambda>c d. False) (\<lambda>txt. NoType) (\<lambda>t p. Some t) s0 (Elapse 1000);
        s2 = rt_step (\<lambda>c d. False) (\<lambda>txt. NoType) (\<lambda>t p. Some t) s1 (Elapse 60000)
    in reconnectAttempts s0 = 1 \<and> timers s0 = [1000] \<and>
       console s1 = [LogConnected, LogDisconnected, LogReconnecting 1] \<and>
       timers s1 = [] \<and> sockets s1 = sockets s0 \<and> ws s1 = Some 0 \<and>
       s2 = s1\<lparr>now := 61000\<rparr> \<and>
       map readyState (sockets s2) = [CLOSED] \<and> \<not> is_open s2)"
  by (simp add: rt_run_def new_RealtimeService_def connect_def is_open_def onopen_def
        onEvent_def set_readyState_def onclose_def handleReconnect_def elapse_def
        reconnect_timer_def)

section \<open>disconnect\<close>


lemma disconnect_no_socket: "ws s = None \<Longrightarrow> disconnect s = s"
  by (simp add: disconnect_def)







section \<open>Fan-out\<close>

lemma forEach_call_no_throw:
  "\<forall>c\<in>set cs. \<not> thr c d \<Longrightarrow> forEach_call thr cs d = (map (\<lambda>c. (c, d)) cs, Returned ())"
  by (induction cs) simp_all

lemma forEach_call_throw:
  "\<forall>x\<in>set pre. \<not> thr x d \<Longrightarrow> thr c d \<Longrightarrow>
     forEach_call thr (pre @ c # post) d = (map (\<lambda>x. (x, d)) (pre @ [c]), Threw c)"
  by (induction pre) simp_all

lemma is_registered_subscribe:
  "is_registered (subscribe s k' c') = (\<lambda>a b. (a = k' \<and> b = c') \<or> is_registered s a b)"
  by (auto simp: is_registered_def subscribe_def set_add_def fun_eq_iff split: option.splits)

lemma is_registered_unsubscribe:
  "is_registered (unsubscribe s k' c') = (\<lambda>a b. \<not> (a = k' \<and> b = c') \<and> is_registered s a b)"
  by (auto simp: is_registered_def unsubscribe_def set_delete_def fun_eq_iff split: option.splits)

lemma unsubscribe_noop: "\<not> is_registered s k c \<Longrightarrow> unsubscribe s k c = s"
proof (cases "subscribers s k")
  case None
  then show ?thesis by (simp add: unsubscribe_def)
next
  case (Some cs)
  assume "\<not> is_registered s k c"
  with Some have "c \<notin> set cs" by (simp add: is_registered_def)
  then have "set_delete c cs = cs" by (auto simp: set_delete_def filter_id_conv)
  with Some have "(subscribers s)(k \<mapsto> set_delete c cs) = subscribers s"
    by (simp add: fun_upd_idem)
  with Some show ?thesis by (simp add: unsubscribe_def)
qed

lemma subscribers_onEvent: "subscribers (fst (onEvent thr s k d)) = subscribers s"
  by (simp add: onEvent_def split: option.splits prod.splits)

lemma reg_wf_step: "reg_wf s \<Longrightarrow> reg_wf (reg_step thr s op)"
  by (cases op)
     (auto simp: reg_wf_def subscribe_def unsubscribe_def set_add_def set_delete_def subscribers_onEvent
           split: option.splits if_splits)

lemma calls_of_append: "calls_of k c (xs @ ys) = calls_of k c xs @ calls_of k c ys"
  by (simp add: calls_of_def)

lemma calls_of_fanout:
  "distinct cs \<Longrightarrow>
     calls_of k c (map (\<lambda>(x, y). (k', x, y)) (map (\<lambda>x. (x, d)) cs)) =
       (if k' = k \<and> c \<in> set cs then [d] else [])"
  by (induction cs) (auto simp: calls_of_def)

lemma invoked_onEvent:
  assumes "\<forall>c d. \<not> thr c d" "reg_wf s"
  shows "calls_of k c (invoked (fst (onEvent thr s k' d))) =
           calls_of k c (invoked s) @ (if k' = k \<and> is_registered s k c then [d] else [])"
proof (cases "subscribers s k'")
  case None
  then show ?thesis by (auto simp: onEvent_def is_registered_def)
next
  case (Some cs)
  have d: "distinct cs" using assms(2) Some by (simp add: reg_wf_def)
  have f: "forEach_call thr cs d = (map (\<lambda>c. (c, d)) cs, Returned ())"
    using assms(1) by (simp add: forEach_call_no_throw)
  show ?thesis
    using Some f calls_of_fanout [OF d, of k c k' d]
    by (auto simp: onEvent_def is_registered_def calls_of_append)
qed

lemma invoked_subscribe: "invoked (subscribe s k c) = invoked s"
  by (simp add: subscribe_def)
lemma invoked_unsubscribe: "invoked (unsubscribe s k c) = invoked s"
  by (simp add: unsubscribe_def split: option.splits)

lemma is_registered_onEvent: "is_registered (fst (onEvent thr s k d)) = is_registered s"
  by (simp add: is_registered_def fun_eq_iff subscribers_onEvent)

lemma reg_run_calls:
  assumes "\<forall>c d. \<not> thr c d"
  shows "reg_wf s \<Longrightarrow>
     calls_of k c (invoked (reg_run thr s ops)) =
       calls_of k c (invoked s) @ received_spec (is_registered s) ops k c"
proof (induction ops arbitrary: s)
  case Nil
  then show ?case by (simp add: reg_run_def)
next
  case (Cons op ops)
  have wf: "reg_wf (reg_step thr s op)" using Cons.prems by (rule reg_wf_step)
  have run: "reg_run thr s (op # ops) = reg_run thr (reg_step thr s op) ops"
    by (simp add: reg_run_def)
  show ?case
  proof (cases op)
    case (Subscribe k' c')
    then show ?thesis
      using Cons.IH [OF wf] run
      by (simp add: is_registered_subscribe invoked_subscribe)
  next
    case (Unsubscribe k' c')
    then show ?thesis
      using Cons.IH [OF wf] run
      by (simp add: is_registered_unsubscribe invoked_unsubscribe)
  next
    case (Dispatch k' d)
    then show ?thesis
      using Cons.IH [OF wf] run invoked_onEvent [OF assms Cons.prems, of k c k' d]
      by (simp add: is_registered_onEvent)
  qed
qed


text \<open>
  Claim C2, as the code has it: when no callback throws, a callback is called for exactly the
  dispatches of its key that occur while it is registered, whatever sequence of
  \<^verbatim>\<open>subscribe\<close> calls, handle calls and dispatches is run. The handle returned by
  \<^verbatim>\<open>subscribe(k, c)\<close> removes \<open>c\<close> from the set of \<open>k\<close> and nothing else, and changes nothing
  at all when \<open>c\<close> is not in that set; \<^verbatim>\<open>subscribe(k, c)\<close> registers \<open>c\<close> under \<open>k\<close>.
\<close>

theorem callbacks_called_while_registered:
  assumes "\<forall>c d. \<not> thr c d" and "reg_wf s"
  shows "calls_of k c (invoked (reg_run thr s ops)) =
           calls_of k c (invoked s) @ received_spec (is_registered s) ops k c \<and>
         is_registered (subscribe s k c) = (\<lambda>a b. (a = k \<and> b = c) \<or> is_registered s a b) \<and>
         is_registered (unsubscribe s k c) = (\<lambda>a b. \<not> (a = k \<and> b = c) \<and> is_registered s a b) \<and>
         (\<not> is_registered s k c \<longrightarrow> unsubscribe s k c = s)"
  using reg_run_calls [OF assms, of k c ops] unsubscribe_noop [of s k c]
  by (simp add: is_registered_subscribe is_registered_unsubscribe)

theorem callbacks_called_while_registered_witness:
  "(\<forall>c d. \<not> (\<lambda>(c::cb) (d::unit event_data). False) c d) \<and>
   reg_wf (new_RealtimeService :: unit realtime_service) \<and>
   \<not> is_registered (new_RealtimeService :: unit realtime_service) ''k'' 1 \<and>
   calls_of ''k'' 1
     (invoked (reg_run (\<lambda>c d. False) (new_RealtimeService :: unit realtime_service)
        [Subscribe ''k'' 1, Dispatch ''k'' StatusConnected, Unsubscribe ''k'' 1,
         Dispatch ''k'' (Payload ())])) = [StatusConnected] \<and>
   unsubscribe (new_RealtimeService :: unit realtime_service) ''k'' 1 = new_RealtimeService"
proof -
  have a: "\<forall>c d. \<not> (\<lambda>(c::cb) (d::unit event_data). False) c d"
    by simp
  have w: "reg_wf (new_RealtimeService :: unit realtime_service)"
    by (simp add: reg_wf_def new_RealtimeService_def)
  have r: "\<not> is_registered (new_RealtimeService :: unit realtime_service) ''k'' 1"
    by (simp add: is_registered_def new_RealtimeService_def)
  have i: "invoked (new_RealtimeService :: unit realtime_service) = []"
    by (simp add: new_RealtimeService_def)
  have e: "is_registered (new_RealtimeService :: unit realtime_service) = (\<lambda>a b. False)"
    by (simp add: is_registered_def new_RealtimeService_def fun_eq_iff)
  show ?thesis
    using a w r
      callbacks_called_while_registered [OF a w, of "''k''" 1
        "[Subscribe ''k'' 1, Dispatch ''k'' StatusConnected, Unsubscribe ''k'' 1,
          Dispatch ''k'' (Payload ())]"]
    by (simp add: i e calls_of_def)
qed

text \<open>
  Claim C2 as stated fails: callback 0 throws; callbacks 0 and 1 subscribe to \<open>k\<close> in this
  order and \<open>k\<close> is dispatched. Callback 1 is registered under \<open>k\<close> at the dispatch, which the
  specification counts for it, and is not called.
\<close>

theorem registered_callback_not_called:
  "is_registered
     (reg_run (\<lambda>c d. c = 0) (new_RealtimeService :: unit realtime_service)
        [Subscribe ''k'' 0, Subscribe ''k'' 1]) ''k'' 1 \<and>
   calls_of ''k'' 1
     (invoked (reg_run (\<lambda>c d. c = 0) (new_RealtimeService :: unit realtime_service)
        [Subscribe ''k'' 0, Subscribe ''k'' 1, Dispatch ''k'' StatusConnected])) = [] \<and>
   received_spec (is_registered (new_RealtimeService :: unit realtime_service))
     [Subscribe ''k'' 0, Subscribe ''k'' 1, Dispatch ''k'' StatusConnected] ''k'' 1 =
     [StatusConnected]"
  by (simp add: reg_run_def new_RealtimeService_def subscribe_def set_add_def onEvent_def
        is_registered_def calls_of_def)

section \<open>A callback that throws\<close>

lemma onEvent_throw:
  assumes "subscribers s k = Some (pre @ c # post)" "\<forall>x\<in>set pre. \<not> thr x d" "thr c d"
  shows "onEvent thr s k d =
           (s\<lparr>invoked := invoked s @ map (\<lambda>x. (k, x, d)) (pre @ [c])\<rparr>, Threw c)"
  using assms forEach_call_throw [of pre thr d c post]
  by (simp add: onEvent_def)

lemma onEvent_no_throw:
  assumes "subscribers s k = Some cs" "\<forall>x\<in>set cs. \<not> thr x d"
  shows "onEvent thr s k d = (s\<lparr>invoked := invoked s @ map (\<lambda>x. (k, x, d)) cs\<rparr>, Returned ())"
  using assms forEach_call_no_throw [of cs thr d]
  by (simp add: onEvent_def comp_def)

lemma notifySubscribers_throw:
  assumes "subscribers_n q = pre @ c # post" "\<forall>x\<in>set pre. \<not> thr x (notifications q)"
    "thr c (notifications q)"
  shows "notifySubscribers thr q =
           (q\<lparr>delivered := delivered q @ map (\<lambda>x. (x, notifications q)) (pre @ [c])\<rparr>, Threw c)"
  using assms forEach_call_throw [of pre thr "notifications q" c post]
  by (simp add: notifySubscribers_def)

lemma notifySubscribers_no_throw:
  assumes "\<forall>x\<in>set (subscribers_n q). \<not> thr x (notifications q)"
  shows "notifySubscribers thr q =
           (q\<lparr>delivered := delivered q @ map (\<lambda>x. (x, notifications q)) (subscribers_n q)\<rparr>,
            Returned ())"
  using assms forEach_call_no_throw [of "subscribers_n q" thr "notifications q"]
  by (simp add: notifySubscribers_def)

text \<open>
  Claim C6, as the code has it. In a dispatch (\<^verbatim>\<open>onEvent\<close> of the realtime service,
  \<^verbatim>\<open>notifySubscribers\<close> of the notification service) the callbacks are called in the order
  they were registered. When one throws, the callbacks before it have been called, it has been
  called, no callback after it is called, and its exception leaves the dispatch. For a
  dispatch started by an incoming message the \<^verbatim>\<open>onmessage\<close> handler catches the exception and
  writes its parse-error line. Only when no callback throws are all of them called.
\<close>

theorem dispatch_stops_at_throwing_callback:
  "(subscribers s k = Some (pre @ c # post) \<and> (\<forall>x\<in>set pre. \<not> thr x d) \<and> thr c d \<longrightarrow>
      onEvent thr s k d =
        (s\<lparr>invoked := invoked s @ map (\<lambda>x. (k, x, d)) (pre @ [c])\<rparr>, Threw c)) \<and>
   (subscribers s k = Some (pre @ c # post) \<and> (\<forall>x\<in>set pre. \<not> thr x (Payload p)) \<and>
    thr c (Payload p) \<and> decode txt = Envelope k p \<longrightarrow>
      onmessage thr decode s txt =
        s\<lparr>invoked := invoked s @ map (\<lambda>x. (k, x, Payload p)) (pre @ [c]),
          console := console s @ [LogParseError]\<rparr>) \<and>
   (subscribers s k = Some cs \<and> (\<forall>x\<in>set cs. \<not> thr x d) \<longrightarrow>
      onEvent thr s k d = (s\<lparr>invoked := invoked s @ map (\<lambda>x. (k, x, d)) cs\<rparr>, Returned ())) \<and>
   (subscribers_n q = pre @ c # post \<and> (\<forall>x\<in>set pre. \<not> thr' x (notifications q)) \<and>
    thr' c (notifications q) \<longrightarrow>
      notifySubscribers thr' q =
        (q\<lparr>delivered := delivered q @ map (\<lambda>x. (x, notifications q)) (pre @ [c])\<rparr>, Threw c)) \<and>
   ((\<forall>x\<in>set (subscribers_n q). \<not> thr' x (notifications q)) \<longrightarrow>
      notifySubscribers thr' q =
        (q\<lparr>delivered := delivered q @ map (\<lambda>x. (x, notifications q)) (subscribers_n q)\<rparr>,
         Returned ()))"
proof -
  have m: "onmessage thr decode s txt =
        s\<lparr>invoked := invoked s @ map (\<lambda>x. (k, x, Payload p)) (pre @ [c]),
          console := console s @ [LogParseError]\<rparr>"
    if "subscribers s k = Some (pre @ c # post)" "\<forall>x\<in>set pre. \<not> thr x (Payload p)"
      "thr c (Payload p)" "decode txt = Envelope k p"
    using that onEvent_throw [of s k pre c post thr "Payload p"] by (simp add: onmessage_def)
  show ?thesis
    using m onEvent_throw [of s k pre c post thr d] onEvent_no_throw [of s k cs thr d]
      notifySubscribers_throw [of q pre c post thr'] notifySubscribers_no_throw [of q thr']
    by blast
qed

theorem dispatch_stops_at_throwing_callback_witness:
  "(let s = subscribe (subscribe (new_RealtimeService :: unit realtime_service) ''k'' 0) ''k'' 1;
        q = subscribe_n (subscribe_n new_NotificationService 0) 1
    in subscribers s ''k'' = Some ([] @ 0 # [1]) \<and>
       onEvent (\<lambda>c d. c = 0) s ''k'' StatusConnected =
         (s\<lparr>invoked := [(''k'', 0, StatusConnected)]\<rparr>, Threw 0) \<and>
       onmessage (\<lambda>c d. c = 0) (\<lambda>txt. Envelope ''k'' ()) s ''m'' =
         s\<lparr>invoked := [(''k'', 0, Payload ())], console := [LogParseError]\<rparr> \<and>
       onEvent (\<lambda>c d. False) s ''k'' StatusConnected =
         (s\<lparr>invoked := [(''k'', 0, StatusConnected), (''k'', 1, StatusConnected)]\<rparr>, Returned ()) \<and>
       subscribers_n q = [] @ 0 # [1] \<and>
       notifySubscribers (\<lambda>c d. c = 0) q = (q\<lparr>delivered := [(0, [])]\<rparr>, Threw 0) \<and>
       notifySubscribers (\<lambda>c d. False) q = (q\<lparr>delivered := [(0, []), (1, [])]\<rparr>, Returned ()))"
proof -
  let ?s = "subscribe (subscribe (new_RealtimeService :: unit realtime_service) ''k'' 0) ''k'' 1"
  let ?q = "subscribe_n (subscribe_n new_NotificationService 0) 1"
  have hs: "subscribers ?s ''k'' = Some ([] @ 0 # [1])" "invoked ?s = []" "console ?s = []"
    by (simp_all add: subscribe_def set_add_def new_RealtimeService_def)
  have hq: "subscribers_n ?q = [] @ 0 # [1]" "delivered ?q = []" "notifications ?q = []"
    by (simp_all add: subscribe_n_def set_add_def new_NotificationService_def)
  show ?thesis
    unfolding Let_def
    using hs hq
      dispatch_stops_at_throwing_callback [of ?s "''k''" "[]" 0 "[1]" "\<lambda>c d. c = 0"
        StatusConnected "()" "\<lambda>txt. Envelope ''k'' ()" "''m''" "[0, 1]" ?q "\<lambda>c d. c = 0"]
      dispatch_stops_at_throwing_callback [of ?s "''k''" "[]" 0 "[1]" "\<lambda>c d. False"
        StatusConnected "()" "\<lambda>txt. Envelope ''k'' ()" "''m''" "[0, 1]" ?q "\<lambda>c d. False"]
    by simp
qed

text \<open>
  Claim C6 as stated fails: callbacks 0 and 1 are registered under \<open>k\<close> and callback 0 throws.
  The dispatch calls callback 0 only and ends with its exception; callback 1, registered at
  the time of the dispatch, is not called. The same happens in \<^verbatim>\<open>notifySubscribers\<close>.
\<close>

theorem throwing_callback_ends_dispatch:
  "is_registered
     (subscribe (subscribe (new_RealtimeService :: unit realtime_service) ''k'' 0) ''k'' 1) ''k'' 1 \<and>
   invoked (fst (onEvent (\<lambda>c d. c = 0)
     (subscribe (subscribe (new_RealtimeService :: unit realtime_service) ''k'' 0) ''k'' 1)
     ''k'' StatusConnected)) = [(''k'', 0, StatusConnected)] \<and>
   snd (onEvent (\<lambda>c d. c = 0)
     (subscribe (subscribe (new_RealtimeService :: unit realtime_service) ''k'' 0) ''k'' 1)
     ''k'' StatusConnected) = Threw 0 \<and>
   subscribers_n (subscribe_n (subscribe_n new_NotificationService 0) 1) = [0, 1] \<and>
   delivered (fst (notifySubscribers (\<lambda>c d. c = 0)
     (subscribe_n (subscribe_n new_NotificationService 0) 1))) = [(0, [])] \<and>
   snd (notifySubscribers (\<lambda>c d. c = 0)
     (subscribe_n (subscribe_n new_NotificationService 0) 1)) = Threw 0"
  by (simp add: new_RealtimeService_def subscribe_def set_add_def onEvent_def is_registered_def
        new_NotificationService_def subscribe_n_def notifySubscribers_def)

section \<open>markAsRead\<close>

lemma find_id_split:
  "find (\<lambda>n. id_n n = i) ns = Some x \<Longrightarrow>
     \<exists>pre post. ns = pre @ x # post \<and> (\<forall>m\<in>set pre. id_n m \<noteq> i) \<and> id_n x = i"
proof (induction ns)
  case Nil
  then show ?case by simp
next
  case (Cons a ns)
  show ?case
  proof (cases "id_n a = i")
    case True
    with Cons.prems have "a = x" by simp
    with True have "a # ns = [] @ x # ns \<and> (\<forall>m\<in>set []. id_n m \<noteq> i) \<and> id_n x = i" by simp
    then show ?thesis by blast
  next
    case False
    with Cons obtain pre post where "ns = pre @ x # post" "\<forall>m\<in>set pre. id_n m \<noteq> i" "id_n x = i"
      by auto
    with False have "a # ns = (a # pre) @ x # post \<and> (\<forall>m\<in>set (a # pre). id_n m \<noteq> i) \<and> id_n x = i"
      by simp
    then show ?thesis by blast
  qed
qed

lemma set_read_first_split:
  "\<forall>m\<in>set pre. id_n m \<noteq> i \<Longrightarrow> id_n n = i \<Longrightarrow>
     set_read_first i (pre @ n # post) = pre @ n\<lparr>read := True\<rparr> # post"
  by (induction pre) simp_all

lemma find_id_None: "find (\<lambda>n. id_n n = i) (notifications s) = None \<longleftrightarrow> \<not> present s i"
  by (auto simp: find_None_iff present_def)

lemma notifySubscribers_fst_snd:
  "fst (notifySubscribers thr q) =
     q\<lparr>delivered := delivered q @ fst (forEach_call thr (subscribers_n q) (notifications q))\<rparr>"
  "snd (notifySubscribers thr q) = snd (forEach_call thr (subscribers_n q) (notifications q))"
  by (simp_all add: notifySubscribers_def split: prod.splits)

lemma markAsRead_absent:
  assumes "\<not> present s i"
  shows "markAsRead thr s i = (s, Returned ())"
proof -
  have "find (\<lambda>n. id_n n = i) (notifications s) = None"
    using assms by (simp add: find_id_None)
  then show ?thesis by (simp add: markAsRead_def)
qed

lemma markAsRead_found:
  assumes "present s i"
  shows "\<exists>pre n post.
      notifications s = pre @ n # post \<and> (\<forall>m\<in>set pre. id_n m \<noteq> i) \<and> id_n n = i \<and>
      markAsRead thr s i =
        notifySubscribers thr (s\<lparr>notifications := pre @ n\<lparr>read := True\<rparr> # post\<rparr>)"
proof -
  from assms obtain x where x: "find (\<lambda>n. id_n n = i) (notifications s) = Some x"
    using find_id_None [of i s] by (cases "find (\<lambda>n. id_n n = i) (notifications s)") auto
  from find_id_split [OF x] obtain pre post where
    sp: "notifications s = pre @ x # post" "\<forall>m\<in>set pre. id_n m \<noteq> i" "id_n x = i"
    by blast
  have "set_read_first i (notifications s) = pre @ x\<lparr>read := True\<rparr> # post"
    using sp by (simp add: set_read_first_split)
  then have "markAsRead thr s i =
      notifySubscribers thr (s\<lparr>notifications := pre @ x\<lparr>read := True\<rparr> # post\<rparr>)"
    using x by (simp add: markAsRead_def)
  with sp show ?thesis by blast
qed

lemma notifySubscribers_on_no_throw:
  assumes "\<forall>c\<in>set (subscribers_n s). \<not> thr c l"
  shows "notifySubscribers thr (s\<lparr>notifications := l\<rparr>) =
           (s\<lparr>notifications := l,
              delivered := delivered s @ map (\<lambda>c. (c, l)) (subscribers_n s)\<rparr>, Returned ())"
  using assms notifySubscribers_no_throw [of "s\<lparr>notifications := l\<rparr>" thr] by simp

lemma notifySubscribers_on_throw:
  assumes "subscribers_n s = before @ c # after" "\<forall>x\<in>set before. \<not> thr x l" "thr c l"
  shows "notifySubscribers thr (s\<lparr>notifications := l\<rparr>) =
           (s\<lparr>notifications := l,
              delivered := delivered s @ map (\<lambda>x. (x, l)) (before @ [c])\<rparr>, Threw c)"
  using assms notifySubscribers_throw [of "s\<lparr>notifications := l\<rparr>" before c after thr] by simp

text \<open>
  Claim C9, as the code has it. When no notification has the id, \<^verbatim>\<open>markAsRead(id)\<close> changes
  nothing, calls no subscriber and returns. When one has it, the first such notification \<open>n\<close>
  of the list, and only that one, gets \<open>read = True\<close>: the notifications before and after it
  and every other field of \<open>n\<close> stay as they are, as does the rest of the service. The updated
  list is then handed to the subscribers in the order they were registered: to every one of
  them when none throws, and otherwise to those up to and including the first that throws,
  whose exception leaves \<^verbatim>\<open>markAsRead\<close>; the subscribers after it are not called.
\<close>

theorem markAsRead_sets_read_and_notifies:
  "(\<not> present s i \<longrightarrow> markAsRead thr s i = (s, Returned ())) \<and>
   (present s i \<longrightarrow>
     (\<exists>pre n post.
        notifications s = pre @ n # post \<and> (\<forall>m\<in>set pre. id_n m \<noteq> i) \<and> id_n n = i \<and>
        ((\<forall>c\<in>set (subscribers_n s). \<not> thr c (pre @ n\<lparr>read := True\<rparr> # post)) \<longrightarrow>
           markAsRead thr s i =
             (s\<lparr>notifications := pre @ n\<lparr>read := True\<rparr> # post,
                delivered := delivered s @
                  map (\<lambda>c. (c, pre @ n\<lparr>read := True\<rparr> # post)) (subscribers_n s)\<rparr>,
              Returned ())) \<and>
        (\<forall>before c after.
           subscribers_n s = before @ c # after \<and>
           (\<forall>x\<in>set before. \<not> thr x (pre @ n\<lparr>read := True\<rparr> # post)) \<and>
           thr c (pre @ n\<lparr>read := True\<rparr> # post) \<longrightarrow>
           markAsRead thr s i =
             (s\<lparr>notifications := pre @ n\<lparr>read := True\<rparr> # post,
                delivered := delivered s @
                  map (\<lambda>x. (x, pre @ n\<lparr>read := True\<rparr> # post)) (before @ [c])\<rparr>,
              Threw c))))"
proof -
  have "\<exists>pre n post.
        notifications s = pre @ n # post \<and> (\<forall>m\<in>set pre. id_n m \<noteq> i) \<and> id_n n = i \<and>
        ((\<forall>c\<in>set (subscribers_n s). \<not> thr c (pre @ n\<lparr>read := True\<rparr> # post)) \<longrightarrow>
           markAsRead thr s i =
             (s\<lparr>notifications := pre @ n\<lparr>read := True\<rparr> # post,
                delivered := delivered s @
                  map (\<lambda>c. (c, pre @ n\<lparr>read := True\<rparr> # post)) (subscribers_n s)\<rparr>,
              Returned ())) \<and>
        (\<forall>before c after.
           subscribers_n s = before @ c # after \<and>
           (\<forall>x\<in>set before. \<not> thr x (pre @ n\<lparr>read := True\<rparr> # post)) \<and>
           thr c (pre @ n\<lparr>read := True\<rparr> # post) \<longrightarrow>
           markAsRead thr s i =
             (s\<lparr>notifications := pre @ n\<lparr>read := True\<rparr> # post,
                delivered := delivered s @
                  map (\<lambda>x. (x, pre @ n\<lparr>read := True\<rparr> # post)) (before @ [c])\<rparr>,
              Threw c))"
    if "present s i"
  proof -
    from markAsRead_found [OF that, of thr] obtain pre n post where
      f: "notifications s = pre @ n # post" "\<forall>m\<in>set pre. id_n m \<noteq> i" "id_n n = i"
         "markAsRead thr s i =
            notifySubscribers thr (s\<lparr>notifications := pre @ n\<lparr>read := True\<rparr> # post\<rparr>)"
      by blast
    let ?l = "pre @ n\<lparr>read := True\<rparr> # post"
    have a: "(\<forall>c\<in>set (subscribers_n s). \<not> thr c ?l) \<longrightarrow>
           markAsRead thr s i =
             (s\<lparr>notifications := ?l,
                delivered := delivered s @ map (\<lambda>c. (c, ?l)) (subscribers_n s)\<rparr>, Returned ())"
      using f(4) notifySubscribers_on_no_throw [of s thr ?l] by simp
    have b: "\<forall>before c after.
           subscribers_n s = before @ c # after \<and> (\<forall>x\<in>set before. \<not> thr x ?l) \<and> thr c ?l \<longrightarrow>
           markAsRead thr s i =
             (s\<lparr>notifications := ?l,
                delivered := delivered s @ map (\<lambda>x. (x, ?l)) (before @ [c])\<rparr>, Threw c)"
    proof (intro allI impI)
      fix before c after
      assume h: "subscribers_n s = before @ c # after \<and> (\<forall>x\<in>set before. \<not> thr x ?l) \<and> thr c ?l"
      then show "markAsRead thr s i =
             (s\<lparr>notifications := ?l,
                delivered := delivered s @ map (\<lambda>x. (x, ?l)) (before @ [c])\<rparr>, Threw c)"
        using f(4) notifySubscribers_on_throw [of s before c after thr ?l] by simp
    qed
    from f(1,2,3) a b show ?thesis by blast
  qed
  then show ?thesis
    using markAsRead_absent [of s i thr] by blast
qed

theorem markAsRead_sets_read_and_notifies_witness:
  "(let s = ns_run (\<lambda>c d. False) new_NotificationService
              [Call_subscribe_n 7, Elapse_n 1000, Call_error ''a'' no_options, Elapse_n 2,
               Call_error ''b'' no_options]
    in present s ''1000'' \<and> \<not> present s ''5'' \<and>
       subscribers_n s = [] @ 7 # [] \<and>
       map id_n (notifications s) = [''1002'', ''1000''] \<and>
       map read (notifications s) = [False, False] \<and>
       markAsRead (\<lambda>c d. False) s ''5'' = (s, Returned ()) \<and>
       map read (notifications (fst (markAsRead (\<lambda>c d. False) s ''1000''))) = [False, True] \<and>
       snd (markAsRead (\<lambda>c d. False) s ''1000'') = Returned () \<and>
       map read (notifications (fst (markAsRead (\<lambda>c d. c = 7) s ''1000''))) = [False, True] \<and>
       snd (markAsRead (\<lambda>c d. c = 7) s ''1000'') = Threw 7)"
proof -
  let ?s = "ns_run (\<lambda>c d. False) new_NotificationService
              [Call_subscribe_n 7, Elapse_n 1000, Call_error ''a'' no_options, Elapse_n 2,
               Call_error ''b'' no_options]"
  have n: "notifications ?s =
      [\<lparr>id_n = ''1002'', type_n = ERROR, message = ''b'', details = None, timestamp = 1002,
         read = False, persistent = Some True, action = None\<rparr>,
       \<lparr>id_n = ''1000'', type_n = ERROR, message = ''a'', details = None, timestamp = 1000,
         read = False, persistent = Some True, action = None\<rparr>]"
    by (simp add: ns_run_def new_NotificationService_def subscribe_n_def set_add_def elapse_n_def
          error_def spread_def no_options_def add_def newNotification_def notifySubscribers_def
          toString_def digits.simps)
  have u: "subscribers_n ?s = [] @ 7 # []"
    by (simp add: ns_run_def new_NotificationService_def subscribe_n_def set_add_def elapse_n_def
          error_def spread_def no_options_def add_def newNotification_def notifySubscribers_def
          toString_def digits.simps)
  have p: "present ?s ''1000''" "\<not> present ?s ''5''"
    by (simp_all add: present_def n)
  from markAsRead_sets_read_and_notifies [of ?s "''1000''" "\<lambda>c d. False"] p(1)
  obtain pre x post where
    a: "notifications ?s = pre @ x # post" "\<forall>m\<in>set pre. id_n m \<noteq> ''1000''" "id_n x = ''1000''"
       "markAsRead (\<lambda>c d. False) ?s ''1000'' =
          (?s\<lparr>notifications := pre @ x\<lparr>read := True\<rparr> # post,
             delivered := delivered ?s @
               map (\<lambda>c. (c, pre @ x\<lparr>read := True\<rparr> # post)) (subscribers_n ?s)\<rparr>, Returned ())"
    by auto
  have ra: "map read (pre @ x\<lparr>read := True\<rparr> # post) = [False, True]"
    using a(1,2,3) unfolding n by (cases pre; cases "tl pre") auto
  from markAsRead_sets_read_and_notifies [of ?s "''1000''" "\<lambda>c d. c = 7"] p(1)
  obtain pre' x' post' where
    b: "notifications ?s = pre' @ x' # post'" "\<forall>m\<in>set pre'. id_n m \<noteq> ''1000''"
       "id_n x' = ''1000''"
       "\<forall>before c after.
           subscribers_n ?s = before @ c # after \<and> (\<forall>x\<in>set before. x \<noteq> 7) \<and> c = 7 \<longrightarrow>
           markAsRead (\<lambda>c d. c = 7) ?s ''1000'' =
             (?s\<lparr>notifications := pre' @ x'\<lparr>read := True\<rparr> # post',
                delivered := delivered ?s @
                  map (\<lambda>x. (x, pre' @ x'\<lparr>read := True\<rparr> # post')) (before @ [c])\<rparr>, Threw c)"
    by auto
  have rb: "map read (pre' @ x'\<lparr>read := True\<rparr> # post') = [False, True]"
    using b(1,2,3) unfolding n by (cases pre'; cases "tl pre'") auto
  have mb: "markAsRead (\<lambda>c d. c = 7) ?s ''1000'' =
             (?s\<lparr>notifications := pre' @ x'\<lparr>read := True\<rparr> # post',
                delivered := delivered ?s @
                  map (\<lambda>x. (x, pre' @ x'\<lparr>read := True\<rparr> # post')) ([] @ [7])\<rparr>, Threw 7)"
    using b(4) [rule_format, of "[]" 7 "[]"] u by simp
  show ?thesis
    unfolding Let_def
    using p u ra rb a(4) mb markAsRead_sets_read_and_notifies [of ?s "''5''" "\<lambda>c d. False"]
    by (simp add: n)
qed

text \<open>
  Claim C9 as stated fails: a notification with the id 1000 is in the queue, subscribers 0 and
  1 are registered in this order, and subscriber 0 throws. \<^verbatim>\<open>markAsRead('1000')\<close> sets
  \<open>read\<close>, calls subscriber 0 and ends with its exception: the updated list never reaches
  subscriber 1.
\<close>

theorem markAsRead_fan_out_cut_short:
  "subscribers_n (ns_run (\<lambda>c d. False) new_NotificationService
      [Elapse_n 1000, Call_error ''a'' no_options, Call_subscribe_n 0, Call_subscribe_n 1]) =
     [0, 1] \<and>
   map id_n (notifications (ns_run (\<lambda>c d. False) new_NotificationService
      [Elapse_n 1000, Call_error ''a'' no_options, Call_subscribe_n 0, Call_subscribe_n 1])) =
     [''1000''] \<and>
   delivered (ns_run (\<lambda>c d. False) new_NotificationService
      [Elapse_n 1000, Call_error ''a'' no_options, Call_subscribe_n 0, Call_subscribe_n 1]) = [] \<and>
   snd (markAsRead (\<lambda>c d. c = 0)
      (ns_run (\<lambda>c d. False) new_NotificationService
         [Elapse_n 1000, Call_error ''a'' no_options, Call_subscribe_n 0, Call_subscribe_n 1])
      ''1000'') = Threw 0 \<and>
   map read (notifications (fst (markAsRead (\<lambda>c d. c = 0)
      (ns_run (\<lambda>c d. False) new_NotificationService
         [Elapse_n 1000, Call_error ''a'' no_options, Call_subscribe_n 0, Call_subscribe_n 1])
      ''1000''))) = [True] \<and>
   map fst (delivered (fst (markAsRead (\<lambda>c d. c = 0)
      (ns_run (\<lambda>c d. False) new_NotificationService
         [Elapse_n 1000, Call_error ''a'' no_options, Call_subscribe_n 0, Call_subscribe_n 1])
      ''1000''))) = [0]"
  by (simp add: ns_run_def new_NotificationService_def subscribe_n_def set_add_def elapse_n_def
        error_def spread_def no_options_def add_def newNotification_def notifySubscribers_def
        toString_def digits.simps markAsRead_def)

section \<open>The notification queue\<close>

lemmas ns_eval = ns_run_def new_NotificationService_def subscribe_n_def set_add_def elapse_n_def
  success_def error_def warning_def info_def spread_def no_options_def add_def newNotification_def
  notifySubscribers_def remove_def toString_def digits.simps present_def

lemma ids_set_read_first: "map id_n (set_read_first i ns) = map id_n ns"
  by (induction ns) simp_all

lemma notifySubscribers_fields:
  "notifications (fst (notifySubscribers thr q)) = notifications q"
  "subscribers_n (fst (notifySubscribers thr q)) = subscribers_n q"
  "timers_n (fst (notifySubscribers thr q)) = timers_n q"
  "now_n (fst (notifySubscribers thr q)) = now_n q"
  by (simp_all add: notifySubscribers_fst_snd)

lemma remove_fields:
  "notifications (fst (remove thr s i)) = filter (\<lambda>n. id_n n \<noteq> i) (notifications s)"
  "subscribers_n (fst (remove thr s i)) = subscribers_n s"
  "timers_n (fst (remove thr s i)) = timers_n s"
  "now_n (fst (remove thr s i)) = now_n s"
  by (simp_all add: remove_def notifySubscribers_fields)

lemma markAsRead_ids: "map id_n (notifications (fst (markAsRead thr s i))) = map id_n (notifications s)"
  by (simp add: markAsRead_def notifySubscribers_fields ids_set_read_first split: option.splits)

lemma add_fields:
  "notifications (fst (add thr s a)) = newNotification s a # notifications s"
  "subscribers_n (fst (add thr s a)) = subscribers_n s"
  "now_n (fst (add thr s a)) = now_n s"
proof -
  let ?q = "s\<lparr>notifications := newNotification s a # notifications s\<rparr>"
  obtain s' r where e: "notifySubscribers thr ?q = (s', r)"
    by (cases "notifySubscribers thr ?q")
  have f: "notifications s' = newNotification s a # notifications s"
    "subscribers_n s' = subscribers_n s" "now_n s' = now_n s"
    using notifySubscribers_fields [of thr ?q] e by simp_all
  show "notifications (fst (add thr s a)) = newNotification s a # notifications s"
    using e f by (cases r) (simp_all add: add_def)
  show "subscribers_n (fst (add thr s a)) = subscribers_n s"
    using e f by (cases r) (simp_all add: add_def)
  show "now_n (fst (add thr s a)) = now_n s"
    using e f by (cases r) (simp_all add: add_def)
qed

lemma add_returns:
  assumes "\<forall>c\<in>set (subscribers_n s). \<not> thr c (newNotification s a # notifications s)"
  shows "add thr s a =
           (s\<lparr>notifications := newNotification s a # notifications s,
              delivered := delivered s @
                map (\<lambda>c. (c, newNotification s a # notifications s)) (subscribers_n s),
              timers_n := timers_n s @
                (if persistent_i a \<noteq> Some True then [(now_n s + 5000, toString (now_n s))] else [])\<rparr>,
            Returned (toString (now_n s)))"
  using assms
    notifySubscribers_no_throw [of "s\<lparr>notifications := newNotification s a # notifications s\<rparr>" thr]
  by (simp add: add_def)

lemma add_throws:
  assumes "subscribers_n s = pre @ c # post"
    "\<forall>x\<in>set pre. \<not> thr x (newNotification s a # notifications s)"
    "thr c (newNotification s a # notifications s)"
  shows "snd (add thr s a) = Threw c \<and> timers_n (fst (add thr s a)) = timers_n s"
  using assms
    notifySubscribers_throw [of "s\<lparr>notifications := newNotification s a # notifications s\<rparr>" pre c post thr]
  by (simp add: add_def)

section \<open>Identifiers and the fields assigned by add\<close>

text \<open>
  Claim C7, evaluated on two calls in the same clock tick: at time 1000 \<^verbatim>\<open>success('a')\<close> and
  \<^verbatim>\<open>info('b')\<close> are called. Both notifications get the id \<^verbatim>\<open>Date.now().toString()\<close>, the
  string 1000, and the queue holds two notifications with one id. (Ids do stay as they are
  under \<^verbatim>\<open>remove\<close> and \<^verbatim>\<open>markAsRead\<close>: \<open>remove_fields\<close>, \<open>markAsRead_ids\<close>.)
\<close>

theorem same_tick_adds_share_id:
  "map id_n (notifications (ns_run (\<lambda>c d. False) new_NotificationService
      [Elapse_n 1000, Call_success ''a'' no_options, Call_info ''b'' no_options])) =
     [''1000'', ''1000''] \<and>
   \<not> distinct (map id_n (notifications (ns_run (\<lambda>c d. False) new_NotificationService
      [Elapse_n 1000, Call_success ''a'' no_options, Call_info ''b'' no_options])))"
  by (simp add: ns_eval)

text \<open>
  Claim C8, evaluated on a call with overrides: at time 1000,
  \<^verbatim>\<open>success('Saved', { id: 'x', timestamp: <7>, read: true })\<close>. The object given to \<^verbatim>\<open>add\<close>
  carries the three properties, the spread in \<^verbatim>\<open>add\<close> lets them replace the values the
  queue has just assigned, and the notification inserted has the caller's id and timestamp
  and \<open>read = True\<close>, while \<^verbatim>\<open>add\<close> returns the id 1000 that no notification has.
\<close>

theorem overrides_replace_assigned_fields:
  "(let s = ns_run (\<lambda>c d. False) new_NotificationService [Elapse_n 1000];
        r = success (\<lambda>c d. False) s ''Saved''
              (no_options\<lparr>id_opt := Some ''x'', timestamp_opt := Some 7, read_opt := Some True\<rparr>)
    in now_n s = 1000 \<and>
       snd r = Returned ''1000'' \<and>
       notifications (fst r) =
         [\<lparr>id_n = ''x'', type_n = SUCCESS, message = ''Saved'', details = None, timestamp = 7,
           read = True, persistent = None, action = None\<rparr>])"
  by (simp add: ns_eval)

section \<open>What add returns\<close>

text \<open>
  Claim C10, as the code has it: when no subscriber throws on the new list, \<^verbatim>\<open>add\<close> returns
  the string of the clock reading, the new notification is the first of the list, and every
  subscriber is called with that list; when moreover the argument carries no \<^verbatim>\<open>id\<close> of its
  own, the new notification has the returned string as its id.
\<close>

theorem add_returns_id_of_newest:
  assumes "\<forall>c\<in>set (subscribers_n s). \<not> thr c (newNotification s a # notifications s)"
  shows "\<exists>s' n. add thr s a = (s', Returned (toString (now_n s))) \<and>
           notifications s' = n # notifications s \<and>
           delivered s' = delivered s @ map (\<lambda>c. (c, n # notifications s)) (subscribers_n s) \<and>
           (id_i a = None \<longrightarrow> id_n n = toString (now_n s))"
  using add_returns [of s thr a] assms
  by (simp add: newNotification_def)

theorem add_returns_id_of_newest_witness:
  "(let s = ns_run (\<lambda>c d. False) new_NotificationService [Call_subscribe_n 7, Elapse_n 1000];
        a = spread INFO ''hi'' None no_options
    in (\<forall>c\<in>set (subscribers_n s). \<not> False) \<and> id_i a = None \<and>
       snd (add (\<lambda>c d. False) s a) = Returned ''1000'' \<and>
       map id_n (notifications (fst (add (\<lambda>c d. False) s a))) = [''1000''] \<and>
       map (\<lambda>(c, l). (c, map id_n l)) (delivered (fst (add (\<lambda>c d. False) s a))) =
         [(7, [''1000''])])"
proof -
  let ?thr = "\<lambda>(c :: cb) (d :: notification list). False"
  let ?s = "ns_run ?thr new_NotificationService [Call_subscribe_n 7, Elapse_n 1000]"
  let ?a = "spread INFO ''hi'' None no_options"
  have s: "subscribers_n ?s = [7]" "notifications ?s = []" "delivered ?s = []"
    "toString (now_n ?s) = ''1000''"
    by (simp_all add: ns_eval)
  have h1: "\<forall>c\<in>set (subscribers_n ?s). \<not> False"
    by simp
  have h2: "id_i ?a = None"
    by (simp add: spread_def no_options_def)
  from add_returns_id_of_newest [of ?s ?thr ?a, OF h1] h2 obtain s' n where
    r: "add ?thr ?s ?a = (s', Returned (toString (now_n ?s)))"
       "notifications s' = n # notifications ?s" "id_n n = toString (now_n ?s)"
       "delivered s' = delivered ?s @ map (\<lambda>c. (c, n # notifications ?s)) (subscribers_n ?s)"
    by blast
  show ?thesis
    unfolding Let_def using h2 r by (simp add: s)
qed

text \<open>
  Claim C10 as stated fails, in two ways.
  A subscriber throws: the exception leaves \<^verbatim>\<open>add\<close>, which returns nothing.
  An id of the caller's: \<^verbatim>\<open>success('Saved', { id: 'x' })\<close> at time 1000 makes \<^verbatim>\<open>add\<close> return
  the string 1000, and the first element of the list that subscriber 7 is called with has the
  id \<open>x\<close>.
\<close>

theorem add_throws_or_returns_other_id:
  "snd (add (\<lambda>c d. c = 0) (subscribe_n new_NotificationService 0)
          (spread INFO ''hi'' None no_options)) = Threw 0 \<and>
   snd (success (\<lambda>c d. False)
          (ns_run (\<lambda>c d. False) new_NotificationService [Call_subscribe_n 7, Elapse_n 1000])
          ''Saved'' (no_options\<lparr>id_opt := Some ''x''\<rparr>)) = Returned ''1000'' \<and>
   map fst (delivered (fst (success (\<lambda>c d. False)
          (ns_run (\<lambda>c d. False) new_NotificationService [Call_subscribe_n 7, Elapse_n 1000])
          ''Saved'' (no_options\<lparr>id_opt := Some ''x''\<rparr>)))) = [7] \<and>
   map (map id_n) (map snd (delivered (fst (success (\<lambda>c d. False)
          (ns_run (\<lambda>c d. False) new_NotificationService [Call_subscribe_n 7, Elapse_n 1000])
          ''Saved'' (no_options\<lparr>id_opt := Some ''x''\<rparr>))))) = [[''x'']]"
  by (simp add: ns_eval)

section \<open>Automatic removal\<close>

lemma add_Returned_fields:
  assumes "add thr s a = (s', Returned i)"
  shows "i = toString (now_n s) \<and>
         notifications s' = newNotification s a # notifications s \<and>
         timers_n s' =
           timers_n s @ (if persistent_i a = Some True then [] else [(now_n s + 5000, i)]) \<and>
         now_n s' = now_n s"
proof -
  let ?q = "s\<lparr>notifications := newNotification s a # notifications s\<rparr>"
  obtain q r where e: "notifySubscribers thr ?q = (q, r)"
    by (cases "notifySubscribers thr ?q")
  have f: "notifications q = newNotification s a # notifications s"
    "timers_n q = timers_n s" "now_n q = now_n s"
    using notifySubscribers_fields [of thr ?q] e by simp_all
  show ?thesis
    using assms e f by (cases r) (auto simp: add_def split: if_splits)
qed

lemma fold_remove_fields:
  "notifications (fold (\<lambda>(due, i) s'. fst (remove thr s' i)) xs s) =
     filter (\<lambda>n. id_n n \<notin> snd ` set xs) (notifications s) \<and>
   timers_n (fold (\<lambda>(due, i) s'. fst (remove thr s' i)) xs s) = timers_n s \<and>
   now_n (fold (\<lambda>(due, i) s'. fst (remove thr s' i)) xs s) = now_n s \<and>
   subscribers_n (fold (\<lambda>(due, i) s'. fst (remove thr s' i)) xs s) = subscribers_n s"
proof (induction xs arbitrary: s)
  case Nil
  then show ?case by simp
next
  case (Cons x xs)
  obtain due i where x: "x = (due, i)" by (cases x)
  have "filter (\<lambda>n. id_n n \<notin> snd ` set xs) (filter (\<lambda>n. id_n n \<noteq> i) (notifications s)) =
        filter (\<lambda>n. id_n n \<notin> snd ` set (x # xs)) (notifications s)"
    using x by (auto intro: filter_cong)
  then show ?case
    using Cons [of "fst (remove thr s i)"] x by (simp add: remove_fields)
qed

lemma elapse_n_fields:
  "notifications (elapse_n thr s dt) =
     filter (\<lambda>n. id_n n \<notin> snd ` {x \<in> set (timers_n s). fst x \<le> now_n s + dt}) (notifications s)"
  "timers_n (elapse_n thr s dt) = filter (\<lambda>(due, i). \<not> due \<le> now_n s + dt) (timers_n s)"
  "now_n (elapse_n thr s dt) = now_n s + dt"
  "subscribers_n (elapse_n thr s dt) = subscribers_n s"
proof -
  have "set (filter (\<lambda>(due, i). due \<le> now_n s + dt) (timers_n s)) =
        {x \<in> set (timers_n s). fst x \<le> now_n s + dt}"
    by auto
  then show "notifications (elapse_n thr s dt) =
     filter (\<lambda>n. id_n n \<notin> snd ` {x \<in> set (timers_n s). fst x \<le> now_n s + dt}) (notifications s)"
    by (simp add: elapse_n_def fold_remove_fields)
  show "timers_n (elapse_n thr s dt) = filter (\<lambda>(due, i). \<not> due \<le> now_n s + dt) (timers_n s)"
    by (simp add: elapse_n_def fold_remove_fields)
  show "now_n (elapse_n thr s dt) = now_n s + dt"
    by (simp add: elapse_n_def)
  show "subscribers_n (elapse_n thr s dt) = subscribers_n s"
    by (simp add: elapse_n_def fold_remove_fields)
qed

lemma present_elapse_n:
  "present (elapse_n thr s dt) i \<longleftrightarrow>
     present s i \<and> \<not> (\<exists>d. (d, i) \<in> set (timers_n s) \<and> d \<le> now_n s + dt)"
  by (force simp: present_def elapse_n_fields)

lemma present_remove: "present (fst (remove thr s i)) j \<longleftrightarrow> present s j \<and> j \<noteq> i"
  by (auto simp: present_def remove_fields)

lemma present_markAsRead: "present (fst (markAsRead thr s i)) j \<longleftrightarrow> present s j"
  by (simp add: present_def markAsRead_ids)

lemma present_add: "present s j \<Longrightarrow> present (fst (add thr s a)) j"
  by (simp add: present_def add_fields)

lemma present_subscribe_n:
  "present (subscribe_n s c) j \<longleftrightarrow> present s j"
  "present (unsubscribe_n s c) j \<longleftrightarrow> present s j"
  by (simp_all add: present_def subscribe_n_def unsubscribe_n_def)

lemma only_remove_removes:
  assumes "present s j" "\<not> present (ns_step thr s e) j"
  shows "e = Call_remove j \<or>
         (\<exists>dt d. e = Elapse_n dt \<and> (d, j) \<in> set (timers_n s) \<and> d \<le> now_n s + dt)"
  using assms
  by (cases e)
     (auto simp: present_remove present_markAsRead present_add present_elapse_n
        success_def error_def warning_def info_def present_subscribe_n)

lemma step_added: "added e = Some a \<Longrightarrow> ns_step thr q e = fst (add thr q a)"
  by (cases e) (auto simp: success_def error_def warning_def info_def)

lemma add_timers:
  "timers_n (fst (add thr q a)) = timers_n q \<or>
   (persistent_i a \<noteq> Some True \<and>
    timers_n (fst (add thr q a)) = timers_n q @ [(now_n q + 5000, toString (now_n q))])"
proof -
  let ?q = "q\<lparr>notifications := newNotification q a # notifications q\<rparr>"
  obtain s' r where e: "notifySubscribers thr ?q = (s', r)"
    by (cases "notifySubscribers thr ?q")
  have f: "timers_n s' = timers_n q"
    using notifySubscribers_fields [of thr ?q] e by simp
  show ?thesis
    using e f by (cases r) (simp_all add: add_def)
qed

lemma markAsRead_fields:
  "timers_n (fst (markAsRead thr s i)) = timers_n s"
  "now_n (fst (markAsRead thr s i)) = now_n s"
  by (simp_all add: markAsRead_def notifySubscribers_fields split: option.splits)

lemma add_effect:
  assumes "id_n (newNotification q a) \<noteq> i"
    "persistent_i a \<noteq> Some True \<longrightarrow> toString (now_n q) \<noteq> i"
  shows "now_n (fst (add thr q a)) = now_n q \<and>
         (present (fst (add thr q a)) i \<longleftrightarrow> present q i) \<and>
         (\<forall>d. (d, i) \<in> set (timers_n (fst (add thr q a))) \<longleftrightarrow> (d, i) \<in> set (timers_n q))"
proof -
  have p: "present (fst (add thr q a)) i \<longleftrightarrow> present q i"
    using assms(1) by (auto simp: present_def add_fields)
  have t: "\<forall>d. (d, i) \<in> set (timers_n (fst (add thr q a))) \<longleftrightarrow> (d, i) \<in> set (timers_n q)"
    using add_timers [of thr q a] assms(2) by auto
  show ?thesis using p t by (simp add: add_fields)
qed

lemma call_effect:
  assumes "leaves_id q e i" "\<forall>dt. e \<noteq> Elapse_n dt"
  shows "now_n (ns_step thr q e) = now_n q \<and>
         (present (ns_step thr q e) i \<longleftrightarrow> present q i) \<and>
         (\<forall>d. (d, i) \<in> set (timers_n (ns_step thr q e)) \<longleftrightarrow> (d, i) \<in> set (timers_n q))"
proof (cases "added e")
  case (Some a)
  then show ?thesis
    using assms(1) add_effect [of q a i thr] step_added [OF Some, of thr q]
    by (simp add: leaves_id_def)
next
  case None
  show ?thesis
  proof (cases e)
    case (Call_remove j)
    then show ?thesis
      using assms(1) by (auto simp: leaves_id_def present_remove remove_fields)
  next
    case (Call_markAsRead j)
    then show ?thesis by (simp add: present_markAsRead markAsRead_fields)
  next
    case (Call_subscribe_n c)
    have "timers_n (subscribe_n q c) = timers_n q" "now_n (subscribe_n q c) = now_n q"
      by (simp_all add: subscribe_n_def)
    then show ?thesis using Call_subscribe_n by (simp add: present_subscribe_n)
  next
    case (Call_unsubscribe_n c)
    have "timers_n (unsubscribe_n q c) = timers_n q" "now_n (unsubscribe_n q c) = now_n q"
      by (simp_all add: unsubscribe_n_def)
    then show ?thesis using Call_unsubscribe_n by (simp add: present_subscribe_n)
  next
    case (Elapse_n dt)
    then show ?thesis using assms(2) by simp
  qed (use None in simp_all)
qed

lemma elapse_effect:
  "now_n (elapse_n thr q dt) = now_n q + dt \<and>
   (present (elapse_n thr q dt) i \<longleftrightarrow>
      present q i \<and> \<not> (\<exists>d. (d, i) \<in> set (timers_n q) \<and> d \<le> now_n q + dt)) \<and>
   (\<forall>d. (d, i) \<in> set (timers_n (elapse_n thr q dt)) \<longleftrightarrow>
      (d, i) \<in> set (timers_n q) \<and> \<not> d \<le> now_n q + dt)"
  by (auto simp: present_elapse_n elapse_n_fields)

lemma persistent_step:
  assumes "leaves_id q e i" "present q i" "\<forall>d. (d, i) \<notin> set (timers_n q)"
  shows "present (ns_step thr q e) i \<and> (\<forall>d. (d, i) \<notin> set (timers_n (ns_step thr q e)))"
proof (cases "\<exists>dt. e = Elapse_n dt")
  case True
  then obtain dt where "e = Elapse_n dt" by blast
  then show ?thesis
    using assms(2,3) elapse_effect [of thr q dt i] by simp
next
  case False
  then show ?thesis
    using assms call_effect [of q e i thr] by simp
qed

lemma persistent_run:
  "run_leaves_id thr q evs i \<Longrightarrow> present q i \<Longrightarrow> \<forall>d. (d, i) \<notin> set (timers_n q) \<Longrightarrow>
     present (ns_run thr q evs) i"
proof (induction evs arbitrary: q)
  case Nil
  then show ?case by (simp add: ns_run_def)
next
  case (Cons e evs)
  have r: "ns_run thr q (e # evs) = ns_run thr (ns_step thr q e) evs"
    by (simp add: ns_run_def)
  have l: "leaves_id q e i" "run_leaves_id thr (ns_step thr q e) evs i"
    using Cons.prems(1) by simp_all
  have s: "present (ns_step thr q e) i" "\<forall>d. (d, i) \<notin> set (timers_n (ns_step thr q e))"
    using persistent_step [OF l(1) Cons.prems(2,3), of thr] by simp_all
  show ?case
    using Cons.IH [OF l(2) s] r by simp
qed

lemma timed_step:
  assumes "leaves_id q e i"
    "\<forall>d. (d, i) \<in> set (timers_n q) \<longrightarrow> d = due"
    "now_n q < due \<longrightarrow> present q i \<and> (due, i) \<in> set (timers_n q)"
    "due \<le> now_n q \<longrightarrow> \<not> present q i \<and> (\<forall>d. (d, i) \<notin> set (timers_n q))"
  shows "(\<forall>d. (d, i) \<in> set (timers_n (ns_step thr q e)) \<longrightarrow> d = due) \<and>
         (now_n (ns_step thr q e) < due \<longrightarrow>
            present (ns_step thr q e) i \<and> (due, i) \<in> set (timers_n (ns_step thr q e))) \<and>
         (due \<le> now_n (ns_step thr q e) \<longrightarrow>
            \<not> present (ns_step thr q e) i \<and> (\<forall>d. (d, i) \<notin> set (timers_n (ns_step thr q e))))"
proof (cases "\<exists>dt. e = Elapse_n dt")
  case True
  then obtain dt where e: "e = Elapse_n dt" by blast
  note f = elapse_effect [of thr q dt i]
  have 1: "\<forall>d. (d, i) \<in> set (timers_n (elapse_n thr q dt)) \<longrightarrow> d = due"
    using f assms(2) by blast
  have 2: "now_n (elapse_n thr q dt) < due \<longrightarrow>
            present (elapse_n thr q dt) i \<and> (due, i) \<in> set (timers_n (elapse_n thr q dt))"
  proof
    assume a: "now_n (elapse_n thr q dt) < due"
    then have b: "now_n q + dt < due" using f by simp
    then have "now_n q < due" by simp
    then have c: "present q i" "(due, i) \<in> set (timers_n q)" using assms(3) by simp_all
    have "\<not> (\<exists>d. (d, i) \<in> set (timers_n q) \<and> d \<le> now_n q + dt)"
      using assms(2) b by auto
    then show "present (elapse_n thr q dt) i \<and> (due, i) \<in> set (timers_n (elapse_n thr q dt))"
      using f c b by simp
  qed
  have 3: "due \<le> now_n (elapse_n thr q dt) \<longrightarrow>
            \<not> present (elapse_n thr q dt) i \<and> (\<forall>d. (d, i) \<notin> set (timers_n (elapse_n thr q dt)))"
  proof
    assume a: "due \<le> now_n (elapse_n thr q dt)"
    then have b: "due \<le> now_n q + dt" using f by simp
    have t: "\<forall>d. (d, i) \<notin> set (timers_n (elapse_n thr q dt))"
      using f assms(2) b by auto
    have "\<not> present (elapse_n thr q dt) i"
    proof (cases "now_n q < due")
      case True
      then have "(due, i) \<in> set (timers_n q)" using assms(3) by simp
      then show ?thesis using f b by auto
    next
      case False
      then have "\<not> present q i" using assms(4) by simp
      then show ?thesis using f by simp
    qed
    then show "\<not> present (elapse_n thr q dt) i \<and> (\<forall>d. (d, i) \<notin> set (timers_n (elapse_n thr q dt)))"
      using t by simp
  qed
  show ?thesis using e 1 2 3 by simp
next
  case False
  then have ne: "\<forall>dt. e \<noteq> Elapse_n dt" by simp
  note c = call_effect [OF assms(1) ne, of thr]
  have n: "now_n (ns_step thr q e) = now_n q"
    by (rule c [THEN conjunct1])
  have p: "present (ns_step thr q e) i \<longleftrightarrow> present q i"
    by (rule c [THEN conjunct2, THEN conjunct1])
  have t: "\<forall>d. (d, i) \<in> set (timers_n (ns_step thr q e)) \<longleftrightarrow> (d, i) \<in> set (timers_n q)"
    by (rule c [THEN conjunct2, THEN conjunct2])
  show ?thesis
    unfolding n p t [rule_format] using assms(2,3,4) by (intro conjI)
qed

lemma timed_run:
  "run_leaves_id thr q evs i \<Longrightarrow>
   \<forall>d. (d, i) \<in> set (timers_n q) \<longrightarrow> d = due \<Longrightarrow>
   now_n q < due \<longrightarrow> present q i \<and> (due, i) \<in> set (timers_n q) \<Longrightarrow>
   due \<le> now_n q \<longrightarrow> \<not> present q i \<and> (\<forall>d. (d, i) \<notin> set (timers_n q)) \<Longrightarrow>
     present (ns_run thr q evs) i \<longleftrightarrow> now_n (ns_run thr q evs) < due"
proof (induction evs arbitrary: q)
  case Nil
  have e: "ns_run thr q [] = q"
    by (simp add: ns_run_def)
  have "present q i \<longleftrightarrow> now_n q < due"
  proof (cases "now_n q < due")
    case True
    then show ?thesis using Nil.prems(3) by blast
  next
    case False
    then have "due \<le> now_n q" by simp
    then show ?thesis using Nil.prems(4) False by blast
  qed
  then show ?case by (simp only: e)
next
  case (Cons e evs)
  have r: "ns_run thr q (e # evs) = ns_run thr (ns_step thr q e) evs"
    by (simp add: ns_run_def)
  have l: "leaves_id q e i" "run_leaves_id thr (ns_step thr q e) evs i"
    using Cons.prems(1) by simp_all
  note s = timed_step [OF l(1) Cons.prems(2,3,4), of thr]
  have s1: "\<forall>d. (d, i) \<in> set (timers_n (ns_step thr q e)) \<longrightarrow> d = due"
    using s by blast
  have s2: "now_n (ns_step thr q e) < due \<longrightarrow>
            present (ns_step thr q e) i \<and> (due, i) \<in> set (timers_n (ns_step thr q e))"
    using s by blast
  have s3: "due \<le> now_n (ns_step thr q e) \<longrightarrow>
            \<not> present (ns_step thr q e) i \<and> (\<forall>d. (d, i) \<notin> set (timers_n (ns_step thr q e)))"
    using s by blast
  show ?case
    using Cons.IH [OF l(2) s1 s2 s3] r by simp
qed

text \<open>
  Claim C4, as the code has it, for a call of \<^verbatim>\<open>add\<close> that returns (no subscriber threw), with
  an argument that carries no \<^verbatim>\<open>id\<close> of its own, at a time when no pending timer carries the id
  it returns, followed by any run of calls and of time passing that leaves that id alone: no
  \<^verbatim>\<open>remove\<close> of the id is called, and no other add gives a notification or a timer the same
  id. The call sets a timer 5000 ms ahead that removes the returned id exactly when
  \<^verbatim>\<open>persistent\<close> is not \<open>true\<close>. After the run, a notification that is not persistent is in the
  queue exactly if less than 5000 ms have passed since the call, and a persistent one is in
  the queue whatever time has passed. In any state \<^verbatim>\<open>remove(id)\<close> takes the notification
  out, and no step takes it out but a \<^verbatim>\<open>remove\<close> with its id, called directly or by a timer
  that has become due. \<^verbatim>\<open>error(message)\<close> without overrides is \<^verbatim>\<open>add\<close> with
  \<open>persistent = true\<close>.
\<close>

theorem auto_removal_unless_persistent:
  assumes "add thr s a = (s', Returned i)" and "id_i a = None"
    and "\<forall>x\<in>set (timers_n s). snd x \<noteq> i"
    and "run_leaves_id thr s' evs i"
  shows "i = toString (now_n s) \<and> present s' i \<and>
         timers_n s' =
           timers_n s @ (if persistent_i a = Some True then [] else [(now_n s + 5000, i)]) \<and>
         (persistent_i a \<noteq> Some True \<longrightarrow>
            (present (ns_run thr s' evs) i \<longleftrightarrow> now_n (ns_run thr s' evs) < now_n s + 5000)) \<and>
         (persistent_i a = Some True \<longrightarrow> present (ns_run thr s' evs) i) \<and>
         \<not> present (fst (remove thr q i)) i \<and>
         (\<forall>e. present q i \<and> \<not> present (ns_step thr q e) i \<longrightarrow>
              e = Call_remove i \<or>
              (\<exists>dt d. e = Elapse_n dt \<and> (d, i) \<in> set (timers_n q) \<and> d \<le> now_n q + dt)) \<and>
         error thr s m no_options =
           add thr s \<lparr>type_i = ERROR, message_i = m, details_i = None, persistent_i = Some True,
                      action_i = None, id_i = None, timestamp_i = None, read_i = None\<rparr>"
proof -
  note f = add_Returned_fields [OF assms(1)]
  have nw: "now_n s' = now_n s"
    using f by blast
  have p: "present s' i"
    using f assms(2) by (simp add: present_def newNotification_def)
  have np: "present (ns_run thr s' evs) i \<longleftrightarrow> now_n (ns_run thr s' evs) < now_n s + 5000"
    if n: "persistent_i a \<noteq> Some True"
  proof -
    have t: "timers_n s' = timers_n s @ [(now_n s + 5000, i)]"
      using f n by simp
    have 1: "\<forall>d. (d, i) \<in> set (timers_n s') \<longrightarrow> d = now_n s + 5000"
      using assms(3) unfolding t by auto
    have 2: "now_n s' < now_n s + 5000 \<longrightarrow>
             present s' i \<and> (now_n s + 5000, i) \<in> set (timers_n s')"
      using p unfolding t by simp
    have 3: "now_n s + 5000 \<le> now_n s' \<longrightarrow>
             \<not> present s' i \<and> (\<forall>d. (d, i) \<notin> set (timers_n s'))"
      unfolding nw by simp
    show ?thesis
      using assms(4) 1 2 3 by (rule timed_run)
  qed
  have pp: "present (ns_run thr s' evs) i" if y: "persistent_i a = Some True"
  proof -
    have t: "timers_n s' = timers_n s"
      using f y by simp
    have "\<forall>d. (d, i) \<notin> set (timers_n s')"
      using assms(3) unfolding t by auto
    with assms(4) p show ?thesis by (rule persistent_run)
  qed
  have e: "error thr s m no_options =
           add thr s \<lparr>type_i = ERROR, message_i = m, details_i = None, persistent_i = Some True,
                      action_i = None, id_i = None, timestamp_i = None, read_i = None\<rparr>"
    by (simp add: error_def spread_def no_options_def)
  have r: "\<not> present (fst (remove thr q i)) i"
    by (simp add: present_remove)
  have o: "\<forall>e. present q i \<and> \<not> present (ns_step thr q e) i \<longrightarrow>
              e = Call_remove i \<or>
              (\<exists>dt d. e = Elapse_n dt \<and> (d, i) \<in> set (timers_n q) \<and> d \<le> now_n q + dt)"
    using only_remove_removes [of q i thr] by blast
  have i: "i = toString (now_n s)"
    using f by blast
  have tm: "timers_n s' =
           timers_n s @ (if persistent_i a = Some True then [] else [(now_n s + 5000, i)])"
    using f by blast
  from i p tm np pp r o e show ?thesis by blast
qed

theorem auto_removal_unless_persistent_witness:
  "(let s = ns_run (\<lambda>c d. False) new_NotificationService [Elapse_n 1000];
        a = spread SUCCESS ''Saved'' None no_options;
        b = spread ERROR ''Login failed'' (Some True) no_options;
        sa = fst (add (\<lambda>c d. False) s a);
        sb = fst (add (\<lambda>c d. False) s b);
        before = [Call_markAsRead ''1000'', Elapse_n 2000, Call_info ''later'' no_options,
                  Elapse_n 2999];
        after = [Call_markAsRead ''1000'', Elapse_n 2000, Call_info ''later'' no_options,
                 Elapse_n 3000];
        long = [Elapse_n 2000, Call_success ''later'' no_options, Elapse_n 600000]
    in add (\<lambda>c d. False) s a = (sa, Returned ''1000'') \<and> id_i a = None \<and>
       persistent_i a \<noteq> Some True \<and> (\<forall>x\<in>set (timers_n s). snd x \<noteq> ''1000'') \<and>
       run_leaves_id (\<lambda>c d. False) sa before ''1000'' \<and>
       run_leaves_id (\<lambda>c d. False) sa after ''1000'' \<and>
       timers_n sa = [(6000, ''1000'')] \<and>
       present (ns_run (\<lambda>c d. False) sa before) ''1000'' \<and>
       \<not> present (ns_run (\<lambda>c d. False) sa after) ''1000'' \<and>
       add (\<lambda>c d. False) s b = (sb, Returned ''1000'') \<and> id_i b = None \<and>
       persistent_i b = Some True \<and>
       run_leaves_id (\<lambda>c d. False) sb long ''1000'' \<and>
       timers_n sb = [] \<and>
       present (ns_run (\<lambda>c d. False) sb long) ''1000'')"
proof -
  let ?thr = "\<lambda>(c :: cb) (d :: notification list). False"
  let ?s = "ns_run ?thr new_NotificationService [Elapse_n 1000]"
  let ?a = "spread SUCCESS ''Saved'' None no_options"
  let ?b = "spread ERROR ''Login failed'' (Some True) no_options"
  let ?before = "[Call_markAsRead ''1000'', Elapse_n 2000, Call_info ''later'' no_options,
                  Elapse_n 2999]"
  let ?after = "[Call_markAsRead ''1000'', Elapse_n 2000, Call_info ''later'' no_options,
                 Elapse_n 3000]"
  let ?long = "[Elapse_n 2000, Call_success ''later'' no_options, Elapse_n 600000]"
  have s: "timers_n ?s = []" "now_n ?s = 1000"
    by (simp_all add: ns_eval)
  have ra: "add ?thr ?s ?a = (fst (add ?thr ?s ?a), Returned ''1000'')"
    by (simp add: ns_eval)
  have rb: "add ?thr ?s ?b = (fst (add ?thr ?s ?b), Returned ''1000'')"
    by (simp add: ns_eval)
  have ia: "id_i ?a = None" "persistent_i ?a \<noteq> Some True"
    by (simp_all add: spread_def no_options_def)
  have ib: "id_i ?b = None" "persistent_i ?b = Some True"
    by (simp_all add: spread_def no_options_def)
  have f: "\<forall>x\<in>set (timers_n ?s). snd x \<noteq> ''1000''"
    by (simp add: s)
  have la: "run_leaves_id ?thr (fst (add ?thr ?s ?a)) ?before ''1000''"
    by (simp add: ns_eval leaves_id_def markAsRead_def)
  have la': "run_leaves_id ?thr (fst (add ?thr ?s ?a)) ?after ''1000''"
    by (simp add: ns_eval leaves_id_def markAsRead_def)
  have lb: "run_leaves_id ?thr (fst (add ?thr ?s ?b)) ?long ''1000''"
    by (simp add: ns_eval leaves_id_def)
  have na: "now_n (ns_run ?thr (fst (add ?thr ?s ?a)) ?before) = 5999"
    by (simp add: ns_eval markAsRead_def)
  have na': "now_n (ns_run ?thr (fst (add ?thr ?s ?a)) ?after) = 6000"
    by (simp add: ns_eval markAsRead_def)
  note ta = auto_removal_unless_persistent [OF ra ia(1) f la, where q = ?s and m = "''m''"]
  note ta' = auto_removal_unless_persistent [OF ra ia(1) f la', where q = ?s and m = "''m''"]
  note tb = auto_removal_unless_persistent [OF rb ib(1) f lb, where q = ?s and m = "''m''"]
  have ta1: "timers_n (fst (add ?thr ?s ?a)) =
      timers_n ?s @ (if persistent_i ?a = Some True then [] else [(now_n ?s + 5000, ''1000'')])"
    using ta by blast
  have ta2: "present (ns_run ?thr (fst (add ?thr ?s ?a)) ?before) ''1000'' \<longleftrightarrow>
      now_n (ns_run ?thr (fst (add ?thr ?s ?a)) ?before) < now_n ?s + 5000"
    using ta ia(2) by blast
  have ta3: "present (ns_run ?thr (fst (add ?thr ?s ?a)) ?after) ''1000'' \<longleftrightarrow>
      now_n (ns_run ?thr (fst (add ?thr ?s ?a)) ?after) < now_n ?s + 5000"
    using ta' ia(2) by blast
  have tb1: "timers_n (fst (add ?thr ?s ?b)) =
      timers_n ?s @ (if persistent_i ?b = Some True then [] else [(now_n ?s + 5000, ''1000'')])"
    using tb by blast
  have b2: "present (ns_run ?thr (fst (add ?thr ?s ?b)) ?long) ''1000''"
    using tb ib(2) by blast
  have a1: "timers_n (fst (add ?thr ?s ?a)) = [(6000, ''1000'')]"
    using ta1 ia(2) by (simp add: s)
  have a2: "present (ns_run ?thr (fst (add ?thr ?s ?a)) ?before) ''1000''"
    unfolding ta2 na s by simp
  have a3: "\<not> present (ns_run ?thr (fst (add ?thr ?s ?a)) ?after) ''1000''"
    unfolding ta3 na' s by simp
  have b1: "timers_n (fst (add ?thr ?s ?b)) = []"
    using tb1 ib(2) by (simp add: s)
  show ?thesis
    unfolding Let_def using ra rb ia ib f la la' lb a1 a2 a3 b1 b2 by blast
qed

text \<open>
  Claim C4 as stated fails, in these ways.
  A subscriber throws: \<^verbatim>\<open>success('Saved')\<close> at time 1000 inserts the notification, the
  exception leaves \<^verbatim>\<open>add\<close> before the timer is set, and 5000 ms later the notification, not
  persistent, is still in the queue.
  Two calls in one tick: \<^verbatim>\<open>success('Saved')\<close> and \<^verbatim>\<open>error('Login failed')\<close> at time 1000 get
  the same id; the timer of the first removes both, the persistent one included.
  The same two calls in the other order: the persistent notification is added first, at a
  time when no timer is pending, and the timer of the second call removes it all the same.
  An id of the caller's: \<^verbatim>\<open>success('Saved', { id: 'x' })\<close> sets a timer for the id 1000, and
  the notification with id \<open>x\<close>, not persistent, stays.
\<close>

theorem auto_removal_fails:
  "map id_n (notifications (ns_run (\<lambda>c d. c = 0) new_NotificationService
      [Call_subscribe_n 0, Elapse_n 1000, Call_success ''Saved'' no_options, Elapse_n 5000])) =
     [''1000''] \<and>
   map persistent (notifications (ns_run (\<lambda>c d. c = 0) new_NotificationService
      [Call_subscribe_n 0, Elapse_n 1000, Call_success ''Saved'' no_options, Elapse_n 5000])) =
     [None] \<and>
   now_n (ns_run (\<lambda>c d. c = 0) new_NotificationService
      [Call_subscribe_n 0, Elapse_n 1000, Call_success ''Saved'' no_options, Elapse_n 5000]) =
     6000 \<and>
   map persistent (notifications (ns_run (\<lambda>c d. False) new_NotificationService
      [Elapse_n 1000, Call_success ''Saved'' no_options, Call_error ''Login failed'' no_options])) =
     [Some True, None] \<and>
   notifications (ns_run (\<lambda>c d. False) new_NotificationService
      [Elapse_n 1000, Call_success ''Saved'' no_options, Call_error ''Login failed'' no_options,
       Elapse_n 5000]) = [] \<and>
   map persistent (notifications (ns_run (\<lambda>c d. False) new_NotificationService
      [Elapse_n 1000, Call_error ''Login failed'' no_options])) = [Some True] \<and>
   timers_n (ns_run (\<lambda>c d. False) new_NotificationService
      [Elapse_n 1000, Call_error ''Login failed'' no_options]) = [] \<and>
   notifications (ns_run (\<lambda>c d. False) new_NotificationService
      [Elapse_n 1000, Call_error ''Login failed'' no_options, Call_success ''Saved'' no_options,
       Elapse_n 5000]) = [] \<and>
   map id_n (notifications (ns_run (\<lambda>c d. False) new_NotificationService
      [Elapse_n 1000, Call_success ''Saved'' (no_options\<lparr>id_opt := Some ''x''\<rparr>),
       Elapse_n 5000])) = [''x''] \<and>
   map persistent (notifications (ns_run (\<lambda>c d. False) new_NotificationService
      [Elapse_n 1000, Call_success ''Saved'' (no_options\<lparr>id_opt := Some ''x''\<rparr>),
       Elapse_n 5000])) = [None] \<and>
   now_n (ns_run (\<lambda>c d. False) new_NotificationService
      [Elapse_n 1000, Call_success ''Saved'' (no_options\<lparr>id_opt := Some ''x''\<rparr>),
       Elapse_n 5000]) = 6000"
  by (simp add: ns_eval)

end
